theory Spec2Isabelle
  imports Complex_Main "HOL-Library.Multiset"
begin

section \<open>Signal implanting: the healthy-sequence strategy\<close>

text \<open>
  A shallow embedding of \<^verbatim>\<open>HealthySequenceImplanting.py\<close>. Python objects are
  records, exceptions are values of \<open>error\<close>, and the global random generator of
  the \<^verbatim>\<open>random\<close> module is an explicit state that every function threads through,
  also when it raises: a draw that happened before an exception stays consumed.
\<close>

subsection \<open>The random generator\<close>

text \<open>
  The generator is a stream of draws and the number of draws consumed so far.
  \<^verbatim>\<open>randbelow(n)\<close> yields a number below \<open>n\<close> and consumes one draw.
\<close>

record rng =
  source :: "nat \<Rightarrow> nat"
  pos :: nat

definition randbelow :: "nat \<Rightarrow> rng \<Rightarrow> nat \<times> rng" where
  "randbelow n g = (source g (pos g) mod n, g\<lparr>pos := Suc (pos g)\<rparr>)"

text \<open>
  \<^verbatim>\<open>random.shuffle(x)\<close>: for \<open>i\<close> from \<open>len(x) - 1\<close> down to \<open>1\<close>, draw
  \<open>j = randbelow(i + 1)\<close> and exchange \<open>x[i]\<close> and \<open>x[j]\<close>.
\<close>

fun shuffle_from :: "nat \<Rightarrow> 'a list \<Rightarrow> rng \<Rightarrow> 'a list \<times> rng" where
  "shuffle_from 0 xs g = (xs, g)"
| "shuffle_from (Suc i) xs g =
     (case randbelow (Suc (Suc i)) g of
        (j, g') \<Rightarrow> shuffle_from i (xs[Suc i := xs ! j, j := xs ! Suc i]) g')"

definition random_shuffle :: "'a list \<Rightarrow> rng \<Rightarrow> 'a list \<times> rng" where
  "random_shuffle xs g = shuffle_from (length xs - 1) xs g"

subsection \<open>Errors\<close>

datatype error =
    ValueError \<comment> \<open>\<^verbatim>\<open>max([])\<close> in \<^verbatim>\<open>_calculate_max_motif_length\<close>, and \<^verbatim>\<open>int(nan)\<close>\<close>
  | OverflowError \<comment> \<open>\<^verbatim>\<open>int(inf)\<close>, and an integer too large to convert to a float\<close>
  | InsufficientEligibleSequences \<comment> \<open>the assertion of \<^verbatim>\<open>_choose_sequences_for_implanting\<close>\<close>
  | MissingSequenceImplantingStrategy \<comment> \<open>the assertions on \<^verbatim>\<open>sequence_implanting_strategy\<close>\<close>
  | IndexError \<comment> \<open>\<^verbatim>\<open>random.choice([])\<close>\<close>
  | MotifInstantiationError \<comment> \<open>whatever \<^verbatim>\<open>motif.instantiate_motif()\<close> raises\<close>
  | SequenceImplantingError \<comment> \<open>whatever the sequence implanting strategy raises\<close>

text \<open>\<^verbatim>\<open>random.choice(seq)\<close>: IndexError on an empty sequence, else one draw.\<close>

definition random_choice :: "'a list \<Rightarrow> rng \<Rightarrow> (error + 'a) \<times> rng" where
  "random_choice xs g =
     (if xs = [] then (Inl IndexError, g)
      else (case randbelow (length xs) g of (i, g') \<Rightarrow> (Inr (xs ! i), g')))"

subsection \<open>The data model\<close>

record ImplantAnnotation =
  signal_id :: "string option"
  motif_id :: "string option"
  motif_instance :: "string option"
  position :: "nat option"

record SequenceAnnotation =
  implants :: "ImplantAnnotation list option"

record ReceptorSequence =
  amino_acid_sequence :: string
  sequence_identifier :: string
  annotation :: "SequenceAnnotation option"

definition get_sequence :: "ReceptorSequence \<Rightarrow> string" where
  "get_sequence s = amino_acid_sequence s"

record Sample =
  sample_identifier :: string
  custom_params :: "(string \<times> string) list"

record RepertoireMetadata =
  sample :: "Sample option"
  md_implants :: "ImplantAnnotation list"

definition add_implant :: "RepertoireMetadata \<Rightarrow> ImplantAnnotation \<Rightarrow> RepertoireMetadata" where
  "add_implant md i = md\<lparr>md_implants := md_implants md @ [i]\<rparr>"

record Repertoire =
  sequences :: "ReceptorSequence list"
  metadata :: "RepertoireMetadata option"

record MotifInstance =
  mi_instance :: string
  mi_gap :: nat

record Motif =
  motif_identifier :: string
  seed :: string
  max_gap :: nat
  instantiation_strategy :: "rng \<Rightarrow> MotifInstance option \<times> rng"

text \<open>
  Modelled from the spec: \<^verbatim>\<open>Motif.get_max_length\<close> is not among the sources; the
  maximum possible instantiated length is the seed length plus the maximum gap length.
\<close>

definition get_max_length :: "Motif \<Rightarrow> nat" where
  "get_max_length m = length (seed m) + max_gap m"

definition instantiate_motif :: "Motif \<Rightarrow> rng \<Rightarrow> MotifInstance option \<times> rng" where
  "instantiate_motif m g = instantiation_strategy m g"

text \<open>The dictionary handed to the sequence implanting strategy.\<close>

record signal_info =
  info_signal_id :: string
  info_motif_id :: string
  info_motif_instance :: MotifInstance

text \<open>
  The sequence implanting strategy is a collaborator: a function of the sequence, the
  signal dictionary, the position weights and the generator. \<open>None\<close> stands for an
  exception raised by it.
\<close>

type_synonym SequenceImplantingStrategy =
  "ReceptorSequence \<Rightarrow> signal_info \<Rightarrow> (nat \<rightharpoonup> rat) option \<Rightarrow> rng
     \<Rightarrow> ReceptorSequence option \<times> rng"

record HealthySequenceImplanting =
  sequence_implanting_strategy :: "SequenceImplantingStrategy option"
  sequence_position_weights :: "(nat \<rightharpoonup> rat) option"

record Signal =
  signal_identifier :: string
  motifs :: "Motif list"
  implanting_strategy :: HealthySequenceImplanting

subsection \<open>Python floats\<close>

text \<open>
  A Python float is an IEEE 754 binary64 number: a finite value, an infinity, or NaN.
  The finite values are the rationals \<open>m * 2 ^ e\<close> with \<open>\<bar>m\<bar> < 2 ^ 53\<close> and
  \<open>- 1074 \<le> e \<le> 971\<close>. The two zeros are one value here: neither \<^verbatim>\<open>int()\<close> nor a
  product with an infinity tells them apart.
\<close>

datatype pyfloat = Finite rat | PosInf | NegInf | NaN

definition pow2 :: "int \<Rightarrow> rat" where
  "pow2 e = (if 0 \<le> e then 2 ^ nat e else 1 / 2 ^ nat (- e))"

text \<open>The number of binary digits of a positive integer.\<close>

function bit_length :: "int \<Rightarrow> int" where
  "bit_length a = (if 0 < a then bit_length (a div 2) + 1 else 0)"
  by pat_completeness auto
termination
  by (relation "measure nat") auto

declare bit_length.simps [simp del]

text \<open>The binary exponent of a positive rational \<open>x\<close>: \<open>2 ^ k \<le> x < 2 ^ (k + 1)\<close>.\<close>

definition exponent :: "rat \<Rightarrow> int" where
  "exponent x =
     (case quotient_of x of
        (a, b) \<Rightarrow>
          (let k = bit_length a - bit_length b
           in if pow2 k \<le> x then k else k - 1))"

definition round_half_even :: "rat \<Rightarrow> int" where
  "round_half_even x =
     (let f = \<lfloor>x\<rfloor>; d = x - of_int f
      in if d < 1 / 2 then f
         else if 1 / 2 < d then f + 1
         else if even f then f else f + 1)"

text \<open>
  Rounding of an exact result to the nearest float, ties to the even significand: the
  significand has 53 bits, fewer below \<open>2 ^ (- 1022)\<close>, and a rounded value of
  \<open>2 ^ 1024\<close> or more is an infinity. A decimal literal of the program text denotes the
  float its value rounds to.
\<close>

definition round_double :: "rat \<Rightarrow> pyfloat" where
  "round_double x =
     (if x = 0 then Finite 0
      else (let e = max (exponent \<bar>x\<bar> - 52) (- 1074);
                m = round_half_even (\<bar>x\<bar> / pow2 e)
            in if 971 < e \<or> (e = 971 \<and> 9007199254740992 \<le> m)
               then (if 0 < x then PosInf else NegInf)
               else Finite (sgn x * (of_int m * pow2 e))))"

text \<open>An infinity times a finite value: NaN for zero, else the infinity of the sign.\<close>

definition inf_mul :: "bool \<Rightarrow> rat \<Rightarrow> pyfloat" where
  "inf_mul positive y =
     (if y = 0 then NaN else if (0 < y) = positive then PosInf else NegInf)"

fun fmul :: "pyfloat \<Rightarrow> pyfloat \<Rightarrow> pyfloat" where
  "fmul (Finite x) (Finite y) = round_double (x * y)"
| "fmul (Finite x) PosInf = inf_mul True x"
| "fmul (Finite x) NegInf = inf_mul False x"
| "fmul PosInf (Finite y) = inf_mul True y"
| "fmul NegInf (Finite y) = inf_mul False y"
| "fmul PosInf PosInf = PosInf"
| "fmul NegInf NegInf = PosInf"
| "fmul PosInf NegInf = NegInf"
| "fmul NegInf PosInf = NegInf"
| "fmul NaN y = NaN"
| "fmul x NaN = NaN"

text \<open>
  The conversion of an integer to a float rounds in the same way and raises
  OverflowError when the integer is too large.
\<close>

definition float_of_int :: "int \<Rightarrow> error + pyfloat" where
  "float_of_int i =
     (case round_double (of_int i) of
        Finite x \<Rightarrow> Inr (Finite x)
      | PosInf \<Rightarrow> Inl OverflowError
      | NegInf \<Rightarrow> Inl OverflowError
      | NaN \<Rightarrow> Inl OverflowError)"

text \<open>\<^verbatim>\<open>x * i\<close> for a float \<open>x\<close> and an integer \<open>i\<close>: the integer is converted first.\<close>

definition mul_float_int :: "pyfloat \<Rightarrow> int \<Rightarrow> error + pyfloat" where
  "mul_float_int x i =
     (case float_of_int i of
        Inl e \<Rightarrow> Inl e
      | Inr y \<Rightarrow> Inr (fmul x y))"

text \<open>
  \<^verbatim>\<open>int(x)\<close> on a float truncates towards zero; it raises OverflowError on an
  infinity and ValueError on NaN.
\<close>

definition py_int :: "pyfloat \<Rightarrow> error + int" where
  "py_int x =
     (case x of
        Finite v \<Rightarrow> Inr (if 0 \<le> v then \<lfloor>v\<rfloor> else \<lceil>v\<rceil>)
      | PosInf \<Rightarrow> Inl OverflowError
      | NegInf \<Rightarrow> Inl OverflowError
      | NaN \<Rightarrow> Inl ValueError)"

subsection \<open>Python slices\<close>

text \<open>\<^verbatim>\<open>xs[:k]\<close> and \<^verbatim>\<open>xs[k:]\<close>: a negative \<open>k\<close> counts from the end.\<close>

definition slice_to :: "'a list \<Rightarrow> int \<Rightarrow> 'a list" where
  "slice_to xs k = (if 0 \<le> k then take (nat k) xs else take (length xs - nat (- k)) xs)"

definition slice_from :: "'a list \<Rightarrow> int \<Rightarrow> 'a list" where
  "slice_from xs k = (if 0 \<le> k then drop (nat k) xs else drop (length xs - nat (- k)) xs)"

subsection \<open>The strategy\<close>

text \<open>\<^verbatim>\<open>__init__\<close> stores its two arguments and checks nothing.\<close>

definition init :: "SequenceImplantingStrategy option \<Rightarrow> (nat \<rightharpoonup> rat) option
    \<Rightarrow> HealthySequenceImplanting" where
  "init strategy weights =
     \<lparr>sequence_implanting_strategy = strategy, sequence_position_weights = weights\<rparr>"

definition build_new_metadata :: "RepertoireMetadata option \<Rightarrow> RepertoireMetadata" where
  "build_new_metadata md =
     (let new_metadata = (case md of Some m \<Rightarrow> m | None \<Rightarrow> \<lparr>sample = None, md_implants = []\<rparr>)
      in if sample new_metadata = None
         then new_metadata\<lparr>sample := Some \<lparr>sample_identifier = [], custom_params = []\<rparr>\<rparr>
         else new_metadata)"

fun max_list :: "nat list \<Rightarrow> nat" where
  "max_list [] = 0"
| "max_list (x # xs) = (if xs = [] then x else max x (max_list xs))"

definition calculate_max_motif_length :: "Signal \<Rightarrow> error + nat" where
  "calculate_max_motif_length signal =
     (if motifs signal = [] then Inl ValueError
      else Inr (max_list (map get_max_length (motifs signal))))"

definition build_new_repertoire ::
  "ReceptorSequence list \<Rightarrow> RepertoireMetadata option \<Rightarrow> Signal \<Rightarrow> Repertoire" where
  "build_new_repertoire seqs repertoire_metadata signal =
     (let md = (case repertoire_metadata of Some m \<Rightarrow> m
                | None \<Rightarrow> \<lparr>sample = None, md_implants = []\<rparr>);
          implant = \<lparr>signal_id = Some (signal_identifier signal), motif_id = None,
                     motif_instance = None, position = None\<rparr>
      in \<lparr>sequences = seqs, metadata = Some (add_implant md implant)\<rparr>)"

definition implant_in_sequence :: "HealthySequenceImplanting \<Rightarrow> ReceptorSequence \<Rightarrow> Signal
    \<Rightarrow> rng \<Rightarrow> (error + ReceptorSequence) \<times> rng" where
  "implant_in_sequence hsi sequence signal g =
     (case sequence_implanting_strategy hsi of
        None \<Rightarrow> (Inl MissingSequenceImplantingStrategy, g)
      | Some strategy \<Rightarrow>
          (case random_choice (motifs signal) g of
             (Inl e, g1) \<Rightarrow> (Inl e, g1)
           | (Inr motif, g1) \<Rightarrow>
               (case instantiate_motif motif g1 of
                  (None, g2) \<Rightarrow> (Inl MotifInstantiationError, g2)
                | (Some inst, g2) \<Rightarrow>
                    (case strategy sequence
                            \<lparr>info_signal_id = signal_identifier signal,
                             info_motif_id = motif_identifier motif,
                             info_motif_instance = inst\<rparr>
                            (sequence_position_weights hsi) g2 of
                       (None, g3) \<Rightarrow> (Inl SequenceImplantingError, g3)
                     | (Some new_sequence, g3) \<Rightarrow> (Inr new_sequence, g3)))))"

fun implant_loop :: "HealthySequenceImplanting \<Rightarrow> Signal \<Rightarrow> ReceptorSequence list
    \<Rightarrow> rng \<Rightarrow> (error + ReceptorSequence list) \<times> rng" where
  "implant_loop hsi signal [] g = (Inr [], g)"
| "implant_loop hsi signal (s # ss) g =
     (case implant_in_sequence hsi s signal g of
        (Inl e, g1) \<Rightarrow> (Inl e, g1)
      | (Inr processed_sequence, g1) \<Rightarrow>
          (case implant_loop hsi signal ss g1 of
             (Inl e, g2) \<Rightarrow> (Inl e, g2)
           | (Inr rest, g2) \<Rightarrow> (Inr (processed_sequence # rest), g2)))"

definition implant_in_sequences :: "HealthySequenceImplanting \<Rightarrow> ReceptorSequence list
    \<Rightarrow> Signal \<Rightarrow> rng \<Rightarrow> (error + ReceptorSequence list) \<times> rng" where
  "implant_in_sequences hsi sequences_to_be_processed signal g =
     (if sequence_implanting_strategy hsi = None
      then (Inl MissingSequenceImplantingStrategy, g)
      else implant_loop hsi signal sequences_to_be_processed g)"

text \<open>The first test of the selection loop: the sequence already carries an implant.\<close>

definition has_implants :: "ReceptorSequence \<Rightarrow> bool" where
  "has_implants s =
     (case annotation s of
        None \<Rightarrow> False
      | Some a \<Rightarrow> (case implants a of None \<Rightarrow> False | Some is \<Rightarrow> 0 < length is))"

text \<open>
  The selection loop, with its two accumulators \<^verbatim>\<open>unusable_sequences\<close> and
  \<^verbatim>\<open>unprocessed_sequences\<close>.
\<close>

fun partition_loop :: "nat \<Rightarrow> ReceptorSequence list \<Rightarrow> ReceptorSequence list
    \<Rightarrow> ReceptorSequence list \<Rightarrow> ReceptorSequence list \<times> ReceptorSequence list" where
  "partition_loop m [] unusable unprocessed = (unusable, unprocessed)"
| "partition_loop m (s # ss) unusable unprocessed =
     (if has_implants s then partition_loop m ss (unusable @ [s]) unprocessed
      else if length (get_sequence s) \<le> m then partition_loop m ss (unusable @ [s]) unprocessed
      else partition_loop m ss unusable (unprocessed @ [s]))"

text \<open>
  Line 78 comes first: the float product of the rate and the length, then \<^verbatim>\<open>int()\<close>;
  either may raise before the selection loop starts.
\<close>

definition choose_sequences_for_implanting :: "Repertoire \<Rightarrow> pyfloat \<Rightarrow> nat \<Rightarrow> rng
    \<Rightarrow> (error + ReceptorSequence list \<times> ReceptorSequence list) \<times> rng" where
  "choose_sequences_for_implanting repertoire repertoire_implanting_rate max_motif_length g =
     (case mul_float_int repertoire_implanting_rate (int (length (sequences repertoire))) of
        Inl e \<Rightarrow> (Inl e, g)
      | Inr product \<Rightarrow>
          (case py_int product of
             Inl e \<Rightarrow> (Inl e, g)
           | Inr number_of_sequences_to_implant \<Rightarrow>
               (let (unusable_sequences, unprocessed_sequences) =
                      partition_loop max_motif_length (sequences repertoire) [] []
                in if \<not> number_of_sequences_to_implant \<le> int (length unprocessed_sequences)
                   then (Inl InsufficientEligibleSequences, g)
                   else (case random_shuffle unprocessed_sequences g of
                           (shuffled, g') \<Rightarrow>
                             (Inr (slice_to shuffled number_of_sequences_to_implant,
                                   unusable_sequences
                                     @ slice_from shuffled number_of_sequences_to_implant),
                              g')))))"

definition implant_in_repertoire :: "HealthySequenceImplanting \<Rightarrow> Repertoire \<Rightarrow> pyfloat \<Rightarrow> Signal
    \<Rightarrow> rng \<Rightarrow> (error + Repertoire) \<times> rng" where
  "implant_in_repertoire hsi repertoire repertoire_implanting_rate signal g =
     (case calculate_max_motif_length signal of
        Inl e \<Rightarrow> (Inl e, g)
      | Inr max_motif_length \<Rightarrow>
          (case choose_sequences_for_implanting repertoire repertoire_implanting_rate
                  max_motif_length g of
             (Inl e, g1) \<Rightarrow> (Inl e, g1)
           | (Inr (sequences_to_be_processed, other_sequences), g1) \<Rightarrow>
               (case implant_in_sequences hsi sequences_to_be_processed signal g1 of
                  (Inl e, g2) \<Rightarrow> (Inl e, g2)
                | (Inr processed_sequences, g2) \<Rightarrow>
                    (Inr (build_new_repertoire (other_sequences @ processed_sequences)
                            (Some (build_new_metadata (metadata repertoire))) signal),
                     g2))))"

subsection \<open>The same strategy over a store\<close>

text \<open>
  For the claim that the input is never mutated the objects live in a store: a
  repertoire object refers to its list object and its metadata object, a list object
  holds references to sequence objects, and a metadata object refers to its sample and
  to its list of implants. Each class has its own cells; one counter hands out fresh
  addresses, so an address below \<open>next_free\<close> is an object that existed before.
  Appending to a list, shuffling it in place, assigning \<^verbatim>\<open>sample\<close> and
  \<^verbatim>\<open>add_implant\<close> write to the cell they are given; constructors, slices,
  concatenations and \<^verbatim>\<open>copy.deepcopy\<close> allocate. The sequence implanting strategy is
  a function of the value of the sequence it is given, and the sequence it returns is a
  new object.
\<close>

type_synonym addr = nat

record meta_obj =
  sample_ref :: "addr option"
  implants_ref :: addr

record rep_obj =
  sequences_ref :: addr
  metadata_ref :: "addr option"

record heap =
  seq_heap :: "addr \<Rightarrow> ReceptorSequence"
  list_heap :: "addr \<Rightarrow> addr list"
  sample_heap :: "addr \<Rightarrow> Sample"
  implants_heap :: "addr \<Rightarrow> ImplantAnnotation list"
  meta_heap :: "addr \<Rightarrow> meta_obj"
  rep_heap :: "addr \<Rightarrow> rep_obj"
  next_free :: addr

definition alloc_seq :: "ReceptorSequence \<Rightarrow> heap \<Rightarrow> addr \<times> heap" where
  "alloc_seq v h =
     (next_free h, h\<lparr>seq_heap := (seq_heap h)(next_free h := v), next_free := Suc (next_free h)\<rparr>)"

definition alloc_list :: "addr list \<Rightarrow> heap \<Rightarrow> addr \<times> heap" where
  "alloc_list v h =
     (next_free h, h\<lparr>list_heap := (list_heap h)(next_free h := v), next_free := Suc (next_free h)\<rparr>)"

definition alloc_sample :: "Sample \<Rightarrow> heap \<Rightarrow> addr \<times> heap" where
  "alloc_sample v h =
     (next_free h,
      h\<lparr>sample_heap := (sample_heap h)(next_free h := v), next_free := Suc (next_free h)\<rparr>)"

definition alloc_implants :: "ImplantAnnotation list \<Rightarrow> heap \<Rightarrow> addr \<times> heap" where
  "alloc_implants v h =
     (next_free h,
      h\<lparr>implants_heap := (implants_heap h)(next_free h := v), next_free := Suc (next_free h)\<rparr>)"

definition alloc_meta :: "meta_obj \<Rightarrow> heap \<Rightarrow> addr \<times> heap" where
  "alloc_meta v h =
     (next_free h, h\<lparr>meta_heap := (meta_heap h)(next_free h := v), next_free := Suc (next_free h)\<rparr>)"

definition alloc_rep :: "rep_obj \<Rightarrow> heap \<Rightarrow> addr \<times> heap" where
  "alloc_rep v h =
     (next_free h, h\<lparr>rep_heap := (rep_heap h)(next_free h := v), next_free := Suc (next_free h)\<rparr>)"

definition list_append :: "addr \<Rightarrow> addr \<Rightarrow> heap \<Rightarrow> heap" where
  "list_append l a h = h\<lparr>list_heap := (list_heap h)(l := list_heap h l @ [a])\<rparr>"

definition list_assign :: "addr \<Rightarrow> addr list \<Rightarrow> heap \<Rightarrow> heap" where
  "list_assign l v h = h\<lparr>list_heap := (list_heap h)(l := v)\<rparr>"

definition set_sample :: "addr \<Rightarrow> addr \<Rightarrow> heap \<Rightarrow> heap" where
  "set_sample m s h = h\<lparr>meta_heap := (meta_heap h)(m := (meta_heap h m)\<lparr>sample_ref := Some s\<rparr>)\<rparr>"

definition h_add_implant :: "addr \<Rightarrow> ImplantAnnotation \<Rightarrow> heap \<Rightarrow> heap" where
  "h_add_implant m i h =
     h\<lparr>implants_heap := (implants_heap h)
          (implants_ref (meta_heap h m) := implants_heap h (implants_ref (meta_heap h m)) @ [i])\<rparr>"

definition new_metadata :: "heap \<Rightarrow> addr \<times> heap" where
  "new_metadata h =
     (case alloc_implants [] h of
        (i, h1) \<Rightarrow> alloc_meta \<lparr>sample_ref = None, implants_ref = i\<rparr> h1)"

definition deepcopy_metadata :: "addr \<Rightarrow> heap \<Rightarrow> addr \<times> heap" where
  "deepcopy_metadata a h =
     (case alloc_implants (implants_heap h (implants_ref (meta_heap h a))) h of
        (i, h1) \<Rightarrow>
          (case sample_ref (meta_heap h1 a) of
             None \<Rightarrow> alloc_meta \<lparr>sample_ref = None, implants_ref = i\<rparr> h1
           | Some s \<Rightarrow>
               (case alloc_sample (sample_heap h1 s) h1 of
                  (s', h2) \<Rightarrow> alloc_meta \<lparr>sample_ref = Some s', implants_ref = i\<rparr> h2)))"

definition h_build_new_metadata :: "addr option \<Rightarrow> heap \<Rightarrow> addr \<times> heap" where
  "h_build_new_metadata md h =
     (case (case md of Some a \<Rightarrow> deepcopy_metadata a h | None \<Rightarrow> new_metadata h) of
        (new_md, h1) \<Rightarrow>
          if sample_ref (meta_heap h1 new_md) = None
          then (case alloc_sample \<lparr>sample_identifier = [], custom_params = []\<rparr> h1 of
                  (s, h2) \<Rightarrow> (new_md, set_sample new_md s h2))
          else (new_md, h1))"

definition h_build_new_repertoire :: "addr \<Rightarrow> addr option \<Rightarrow> Signal \<Rightarrow> heap \<Rightarrow> addr \<times> heap" where
  "h_build_new_repertoire seqs repertoire_metadata signal h =
     (case (case repertoire_metadata of
              Some a \<Rightarrow> deepcopy_metadata a h
            | None \<Rightarrow> new_metadata h) of
        (md, h1) \<Rightarrow>
          alloc_rep \<lparr>sequences_ref = seqs, metadata_ref = Some md\<rparr>
            (h_add_implant md
               \<lparr>signal_id = Some (signal_identifier signal), motif_id = None,
                motif_instance = None, position = None\<rparr> h1))"

fun h_implant_loop :: "HealthySequenceImplanting \<Rightarrow> Signal \<Rightarrow> addr list \<Rightarrow> addr \<Rightarrow> heap \<Rightarrow> rng
    \<Rightarrow> (error + unit) \<times> heap \<times> rng" where
  "h_implant_loop hsi signal [] r h g = (Inr (), h, g)"
| "h_implant_loop hsi signal (a # as) r h g =
     (case implant_in_sequence hsi (seq_heap h a) signal g of
        (Inl e, g1) \<Rightarrow> (Inl e, h, g1)
      | (Inr processed_sequence, g1) \<Rightarrow>
          (case alloc_seq processed_sequence h of
             (b, h1) \<Rightarrow> h_implant_loop hsi signal as r (list_append r b h1) g1))"

definition h_implant_in_sequences :: "HealthySequenceImplanting \<Rightarrow> addr \<Rightarrow> Signal \<Rightarrow> heap \<Rightarrow> rng
    \<Rightarrow> (error + addr) \<times> heap \<times> rng" where
  "h_implant_in_sequences hsi sequences_to_be_processed signal h g =
     (if sequence_implanting_strategy hsi = None
      then (Inl MissingSequenceImplantingStrategy, h, g)
      else (case alloc_list [] h of
              (r, h1) \<Rightarrow>
                (case h_implant_loop hsi signal (list_heap h1 sequences_to_be_processed) r h1 g of
                   (Inl e, h2, g2) \<Rightarrow> (Inl e, h2, g2)
                 | (Inr u, h2, g2) \<Rightarrow> (Inr r, h2, g2))))"

fun h_partition_loop :: "nat \<Rightarrow> addr list \<Rightarrow> addr \<Rightarrow> addr \<Rightarrow> heap \<Rightarrow> heap" where
  "h_partition_loop m [] unusable_sequences unprocessed_sequences h = h"
| "h_partition_loop m (a # as) unusable_sequences unprocessed_sequences h =
     (if has_implants (seq_heap h a)
      then h_partition_loop m as unusable_sequences unprocessed_sequences
             (list_append unusable_sequences a h)
      else if length (get_sequence (seq_heap h a)) \<le> m
      then h_partition_loop m as unusable_sequences unprocessed_sequences
             (list_append unusable_sequences a h)
      else h_partition_loop m as unusable_sequences unprocessed_sequences
             (list_append unprocessed_sequences a h))"

definition h_choose_sequences_for_implanting :: "addr \<Rightarrow> pyfloat \<Rightarrow> nat \<Rightarrow> heap \<Rightarrow> rng
    \<Rightarrow> (error + addr \<times> addr) \<times> heap \<times> rng" where
  "h_choose_sequences_for_implanting repertoire repertoire_implanting_rate max_motif_length h g =
     (let seqs = list_heap h (sequences_ref (rep_heap h repertoire))
      in case mul_float_int repertoire_implanting_rate (int (length seqs)) of
           Inl e \<Rightarrow> (Inl e, h, g)
         | Inr product \<Rightarrow>
         (case py_int product of
            Inl e \<Rightarrow> (Inl e, h, g)
          | Inr number_of_sequences_to_implant \<Rightarrow>
         (case alloc_list [] h of
           (unusable_sequences, h1) \<Rightarrow>
             (case alloc_list [] h1 of
                (unprocessed_sequences, h2) \<Rightarrow>
                  (let h3 = h_partition_loop max_motif_length seqs
                              unusable_sequences unprocessed_sequences h2
                   in if \<not> number_of_sequences_to_implant
                            \<le> int (length (list_heap h3 unprocessed_sequences))
                      then (Inl InsufficientEligibleSequences, h3, g)
                      else (case random_shuffle (list_heap h3 unprocessed_sequences) g of
                              (shuffled, g') \<Rightarrow>
                                (let h4 = list_assign unprocessed_sequences shuffled h3 in
                                 case alloc_list
                                        (slice_to (list_heap h4 unprocessed_sequences)
                                           number_of_sequences_to_implant) h4 of
                                   (sequences_to_be_infected, h5) \<Rightarrow>
                                     (case alloc_list
                                             (list_heap h5 unusable_sequences @
                                              slice_from (list_heap h5 unprocessed_sequences)
                                                number_of_sequences_to_implant) h5 of
                                        (other_sequences, h6) \<Rightarrow>
                                          (Inr (sequences_to_be_infected, other_sequences),
                                           h6, g')))))))))"

definition h_implant_in_repertoire :: "HealthySequenceImplanting \<Rightarrow> addr \<Rightarrow> pyfloat \<Rightarrow> Signal
    \<Rightarrow> heap \<Rightarrow> rng \<Rightarrow> (error + addr) \<times> heap \<times> rng" where
  "h_implant_in_repertoire hsi repertoire repertoire_implanting_rate signal h g =
     (case calculate_max_motif_length signal of
        Inl e \<Rightarrow> (Inl e, h, g)
      | Inr max_motif_length \<Rightarrow>
          (case h_choose_sequences_for_implanting repertoire repertoire_implanting_rate
                  max_motif_length h g of
             (Inl e, h1, g1) \<Rightarrow> (Inl e, h1, g1)
           | (Inr (sequences_to_be_processed, other_sequences), h1, g1) \<Rightarrow>
               (case h_implant_in_sequences hsi sequences_to_be_processed signal h1 g1 of
                  (Inl e, h2, g2) \<Rightarrow> (Inl e, h2, g2)
                | (Inr processed_sequences, h2, g2) \<Rightarrow>
                    (case alloc_list (list_heap h2 other_sequences
                                      @ list_heap h2 processed_sequences) h2 of
                       (seqs, h3) \<Rightarrow>
                         (case h_build_new_metadata
                                 (metadata_ref (rep_heap h3 repertoire)) h3 of
                            (md, h4) \<Rightarrow>
                              (case h_build_new_repertoire seqs (Some md) signal h4 of
                                 (new_repertoire, h5) \<Rightarrow> (Inr new_repertoire, h5, g2)))))))"

text \<open>The objects below \<open>next_free h\<close> are the same in \<open>h'\<close>.\<close>

definition unchanged :: "heap \<Rightarrow> heap \<Rightarrow> bool" where
  "unchanged h h' =
     (next_free h \<le> next_free h' \<and>
      (\<forall>a < next_free h.
         seq_heap h' a = seq_heap h a \<and> list_heap h' a = list_heap h a \<and>
         sample_heap h' a = sample_heap h a \<and> implants_heap h' a = implants_heap h a \<and>
         meta_heap h' a = meta_heap h a \<and> rep_heap h' a = rep_heap h a))"

text \<open>A metadata object, its list of implants and its sample were allocated after \<open>h\<close>.\<close>

definition fresh_metadata :: "heap \<Rightarrow> heap \<Rightarrow> addr \<Rightarrow> bool" where
  "fresh_metadata h h' m =
     (next_free h \<le> m \<and> m < next_free h' \<and>
      next_free h \<le> implants_ref (meta_heap h' m) \<and>
      (case sample_ref (meta_heap h' m) of None \<Rightarrow> True | Some s \<Rightarrow> next_free h \<le> s))"

text \<open>
  A repertoire object that was allocated after \<open>h\<close>, with its list object and with
  metadata that share nothing with the objects of \<open>h\<close>.
\<close>

definition fresh_repertoire :: "heap \<Rightarrow> heap \<Rightarrow> addr \<Rightarrow> bool" where
  "fresh_repertoire h h' r =
     (next_free h \<le> r \<and> r < next_free h' \<and>
      next_free h \<le> sequences_ref (rep_heap h' r) \<and>
      (case metadata_ref (rep_heap h' r) of
         None \<Rightarrow> False
       | Some m \<Rightarrow> fresh_metadata h h' m))"

text \<open>The values a store holds at a metadata object and at a repertoire object.\<close>

definition metadata_at :: "heap \<Rightarrow> addr \<Rightarrow> RepertoireMetadata" where
  "metadata_at h m =
     \<lparr>sample = map_option (sample_heap h) (sample_ref (meta_heap h m)),
      md_implants = implants_heap h (implants_ref (meta_heap h m))\<rparr>"

definition repertoire_at :: "heap \<Rightarrow> addr \<Rightarrow> Repertoire" where
  "repertoire_at h r =
     \<lparr>sequences = map (seq_heap h) (list_heap h (sequences_ref (rep_heap h r))),
      metadata = map_option (metadata_at h) (metadata_ref (rep_heap h r))\<rparr>"

text \<open>
  Everything a repertoire object refers to lies below \<open>next_free\<close>: the object itself,
  its list, the sequences in the list, and its metadata with sample and implants.
\<close>

definition allocated_metadata :: "heap \<Rightarrow> addr \<Rightarrow> bool" where
  "allocated_metadata h m =
     (m < next_free h \<and> implants_ref (meta_heap h m) < next_free h \<and>
      (case sample_ref (meta_heap h m) of None \<Rightarrow> True | Some s \<Rightarrow> s < next_free h))"

definition allocated :: "heap \<Rightarrow> addr \<Rightarrow> bool" where
  "allocated h r =
     (r < next_free h \<and> sequences_ref (rep_heap h r) < next_free h \<and>
      list_all (\<lambda>a. a < next_free h) (list_heap h (sequences_ref (rep_heap h r))) \<and>
      (case metadata_ref (rep_heap h r) of None \<Rightarrow> True | Some m \<Rightarrow> allocated_metadata h m))"

subsection \<open>Eligibility, in the words of the specification\<close>

definition max_motif_length :: "Signal \<Rightarrow> nat" where
  "max_motif_length signal = max_list (map get_max_length (motifs signal))"

text \<open>
  A sequence is unusable when it already carries an implant annotation or is not longer
  than the longest motif; the candidates are all others.
\<close>

definition unusable :: "nat \<Rightarrow> ReceptorSequence \<Rightarrow> bool" where
  "unusable m s = (has_implants s \<or> length (get_sequence s) \<le> m)"

definition candidates :: "nat \<Rightarrow> Repertoire \<Rightarrow> ReceptorSequence list" where
  "candidates m repertoire = filter (\<lambda>s. \<not> unusable m s) (sequences repertoire)"

text \<open>
  The requested count as line 78 computes it, \<^verbatim>\<open>int(rate * len(sequences))\<close>: the
  truncation of the rounded float product, or the error that the conversions raise.
\<close>

definition requested :: "pyfloat \<Rightarrow> Repertoire \<Rightarrow> error + int" where
  "requested p repertoire =
     (case mul_float_int p (int (length (sequences repertoire))) of
        Inl e \<Rightarrow> Inl e
      | Inr product \<Rightarrow> py_int product)"

text \<open>
  The requested count in the words of the specification, \<open>n = floor (rate * N)\<close>, on the
  exact product.
\<close>

definition spec_requested :: "rat \<Rightarrow> Repertoire \<Rightarrow> int" where
  "spec_requested p repertoire = \<lfloor>p * of_nat (length (sequences repertoire))\<rfloor>"

text \<open>A rate that is not negative: \<^verbatim>\<open>0 <= p\<close>.\<close>

definition nonnegative :: "pyfloat \<Rightarrow> bool" where
  "nonnegative p = (case p of Finite x \<Rightarrow> 0 \<le> x | PosInf \<Rightarrow> True | NegInf \<Rightarrow> False | NaN \<Rightarrow> False)"

text \<open>The implant annotation a repertoire receives: the signal id only.\<close>

definition repertoire_implant :: "Signal \<Rightarrow> ImplantAnnotation" where
  "repertoire_implant signal =
     \<lparr>signal_id = Some (signal_identifier signal), motif_id = None,
      motif_instance = None, position = None\<rparr>"

definition previous_implants :: "Repertoire \<Rightarrow> ImplantAnnotation list" where
  "previous_implants repertoire =
     (case metadata repertoire of None \<Rightarrow> [] | Some m \<Rightarrow> md_implants m)"

definition sequence_implants :: "ReceptorSequence \<Rightarrow> ImplantAnnotation list" where
  "sequence_implants s =
     (case annotation s of
        None \<Rightarrow> []
      | Some a \<Rightarrow> (case implants a of None \<Rightarrow> [] | Some is \<Rightarrow> is))"

text \<open>All implant annotations of a sequence name the same signal.\<close>

definition exclusive :: "ReceptorSequence \<Rightarrow> bool" where
  "exclusive s =
     (\<forall>a \<in> set (sequence_implants s). \<forall>b \<in> set (sequence_implants s).
        signal_id a = signal_id b)"

text \<open>
  What the healthy-sequence strategy expects of its collaborator: the sequence it
  returns for a sequence without implants is annotated with the implanted signal only.
\<close>

definition annotates_signal_only :: "SequenceImplantingStrategy \<Rightarrow> bool" where
  "annotates_signal_only strategy =
     (\<forall>s info w g s' g'. strategy s info w g = (Some s', g') \<longrightarrow> \<not> has_implants s \<longrightarrow>
        (\<forall>a \<in> set (sequence_implants s'). signal_id a = Some (info_signal_id info)))"

subsection \<open>The objects of the test\<close>

text \<open>
  The sequences, motifs and signals of \<^verbatim>\<open>test_signalImplanter.py\<close>. The motif
  instantiation and the sequence implanting strategy of the test are collaborators; the
  stand-ins below return the seed itself and write the instance at the start of the
  sequence, with a fresh annotation of one implant.
\<close>

definition seed_instantiation :: "string \<Rightarrow> rng \<Rightarrow> MotifInstance option \<times> rng" where
  "seed_instantiation sd g = (Some \<lparr>mi_instance = sd, mi_gap = 0\<rparr>, g)"

definition implant_at_start :: SequenceImplantingStrategy where
  "implant_at_start sequence info weights g =
     (let inst = mi_instance (info_motif_instance info) in
      (Some (sequence\<lparr>amino_acid_sequence :=
                        inst @ drop (length inst) (amino_acid_sequence sequence),
                      annotation := Some \<lparr>implants = Some
                        [\<lparr>signal_id = Some (info_signal_id info),
                          motif_id = Some (info_motif_id info),
                          motif_instance = Some inst, position = Some 0\<rparr>]\<rparr>\<rparr>), g))"

definition test_motif :: "string \<Rightarrow> string \<Rightarrow> (rng \<Rightarrow> MotifInstance option \<times> rng) \<Rightarrow> Motif" where
  "test_motif i sd inst =
     \<lparr>motif_identifier = i, seed = sd, max_gap = 0, instantiation_strategy = inst\<rparr>"

definition test_s1 :: "SequenceImplantingStrategy \<Rightarrow> (rng \<Rightarrow> MotifInstance option \<times> rng)
    \<Rightarrow> Signal" where
  "test_s1 strategy inst1 =
     \<lparr>signal_identifier = ''s1'', motifs = [test_motif ''m1'' ''CAS'' inst1],
      implanting_strategy = init (Some strategy) None\<rparr>"

definition test_s2 :: "SequenceImplantingStrategy \<Rightarrow> (rng \<Rightarrow> MotifInstance option \<times> rng)
    \<Rightarrow> (rng \<Rightarrow> MotifInstance option \<times> rng) \<Rightarrow> Signal" where
  "test_s2 strategy inst1 inst2 =
     \<lparr>signal_identifier = ''s2'',
      motifs = [test_motif ''m1'' ''CAS'' inst1, test_motif ''m2'' ''CCC'' inst2],
      implanting_strategy = init (Some strategy) None\<rparr>"

definition s1 :: Signal where
  "s1 = test_s1 implant_at_start (seed_instantiation ''CAS'')"

definition s2 :: Signal where
  "s2 = test_s2 implant_at_start (seed_instantiation ''CAS'') (seed_instantiation ''CCC'')"

definition test_sequence :: "string \<Rightarrow> ReceptorSequence" where
  "test_sequence i =
     \<lparr>amino_acid_sequence = ''ACDEFG'', sequence_identifier = i, annotation = None\<rparr>"

definition test_repertoire :: Repertoire where
  "test_repertoire =
     \<lparr>sequences = map test_sequence [''1'', ''2'', ''3'', ''4''], metadata = None\<rparr>"

definition g0 :: rng where
  "g0 = \<lparr>source = (\<lambda>n. n), pos = 0\<rparr>"

text \<open>A repertoire whose sequences are no longer than the motif of the test.\<close>

definition short_repertoire :: Repertoire where
  "short_repertoire =
     \<lparr>sequences =
        [\<lparr>amino_acid_sequence = ''ACD'', sequence_identifier = ''1'', annotation = None\<rparr>,
         \<lparr>amino_acid_sequence = ''ACD'', sequence_identifier = ''2'', annotation = None\<rparr>],
      metadata = None\<rparr>"

text \<open>Three sequences that are all candidates, and three of which one is.\<close>

definition three_repertoire :: Repertoire where
  "three_repertoire =
     \<lparr>sequences = map test_sequence [''1'', ''2'', ''3''], metadata = None\<rparr>"

definition one_candidate_repertoire :: Repertoire where
  "one_candidate_repertoire =
     \<lparr>sequences = test_sequence ''1'' # sequences short_repertoire, metadata = None\<rparr>"

text \<open>
  What a sequence implanting strategy has made of a target: the sequence it returned
  for the target and one instance of a motif of the signal.
\<close>

definition implanted_by :: "SequenceImplantingStrategy \<Rightarrow> HealthySequenceImplanting \<Rightarrow> Signal
    \<Rightarrow> ReceptorSequence \<Rightarrow> ReceptorSequence \<Rightarrow> bool" where
  "implanted_by strategy hsi signal t s =
     (\<exists>motif inst ga gb. motif \<in> set (motifs signal) \<and>
        strategy t \<lparr>info_signal_id = signal_identifier signal,
                      info_motif_id = motif_identifier motif,
                      info_motif_instance = inst\<rparr>
          (sequence_position_weights hsi) ga = (Some s, gb))"

section \<open>The orchestrator\<close>

text \<open>
  Modelled from the spec: the implanting rule and the simulation state are declared in
  files that are not among the sources. A rule binds an ordered set of signals to a
  dataset-level and a repertoire-level implanting rate; the state holds the dataset, the
  plan, the full signal list and the batch size.
\<close>

record Implanting =
  dataset_implanting_rate :: rat
  repertoire_implanting_rate :: pyfloat
  signals :: "Signal list"

record SimulationState =
  dataset :: "Repertoire list"
  simulation :: "Implanting list"
  state_signals :: "Signal list"
  batch_size :: nat

text \<open>
  Modelled from the spec: an output repertoire carries, in its metadata, one boolean
  flag per known signal under the key \<^verbatim>\<open>signal_<id>\<close>; an absent key is \<open>None\<close>.
\<close>

record OutputRepertoire =
  out_repertoire :: Repertoire
  flags :: "string \<rightharpoonup> bool"

text \<open>
  Modelled from the spec: \<^verbatim>\<open>SignalImplanter\<close> is not among the sources. A rule
  receives \<open>k = round (dataset_implanting_rate * R)\<close> repertoires.
\<close>

definition rule_count :: "Implanting \<Rightarrow> nat \<Rightarrow> nat" where
  "rule_count rule R = nat (round (dataset_implanting_rate rule * of_nat R))"

text \<open>
  Modelled from the spec: for each rule in declared order, its repertoires are drawn at
  random, without replacement, from the pool of still unassigned repertoire indices; the
  draw consumes them from the pool. The result lists the indices of each rule, the pool
  left over and the generator.
\<close>

fun assign_rules :: "Implanting list \<Rightarrow> nat \<Rightarrow> nat list \<Rightarrow> rng
    \<Rightarrow> nat list list \<times> nat list \<times> rng" where
  "assign_rules [] R pool g = ([], pool, g)"
| "assign_rules (rule # rules) R pool g =
     (case random_shuffle pool g of
        (shuffled, g1) \<Rightarrow>
          (case assign_rules rules R (drop (rule_count rule R) shuffled) g1 of
             (rest, pool', g2) \<Rightarrow> (take (rule_count rule R) shuffled # rest, pool', g2)))"

text \<open>
  Modelled from the spec: every signal of the rule is applied to the repertoire in turn,
  each by the implanting strategy of the signal; a failure aborts.
\<close>

fun apply_signals :: "Signal list \<Rightarrow> pyfloat \<Rightarrow> Repertoire \<Rightarrow> rng
    \<Rightarrow> (error + Repertoire) \<times> rng" where
  "apply_signals [] p repertoire g = (Inr repertoire, g)"
| "apply_signals (s # ss) p repertoire g =
     (case implant_in_repertoire (implanting_strategy s) repertoire p s g of
        (Inl e, g1) \<Rightarrow> (Inl e, g1)
      | (Inr new_repertoire, g1) \<Rightarrow> apply_signals ss p new_repertoire g1)"

text \<open>Modelled from the spec: the rule a repertoire index is assigned to, if any.\<close>

fun rule_of :: "nat \<Rightarrow> Implanting list \<Rightarrow> nat list list \<Rightarrow> Implanting option" where
  "rule_of i (rule # rules) (a # as) = (if i \<in> set a then Some rule else rule_of i rules as)"
| "rule_of i rules as = None"

text \<open>
  Modelled from the spec: a repertoire is touched by a signal when the signal belongs to
  the rule the repertoire is assigned to.
\<close>

definition touched :: "Implanting option \<Rightarrow> string \<Rightarrow> bool" where
  "touched rule i =
     (case rule of None \<Rightarrow> False | Some r \<Rightarrow> i \<in> set (map signal_identifier (signals r)))"

text \<open>Modelled from the spec: the metadata key of a signal, \<^verbatim>\<open>signal_<id>\<close>.\<close>

definition flag_key :: "string \<Rightarrow> string" where
  "flag_key i = ''signal_'' @ i"

text \<open>
  Modelled from the spec: for every known signal the flag is set to whether the signal
  touched the repertoire.
\<close>

definition signal_flags :: "Signal list \<Rightarrow> Implanting option \<Rightarrow> (string \<rightharpoonup> bool)" where
  "signal_flags known rule =
     fold (\<lambda>s m. m(flag_key (signal_identifier s) \<mapsto> touched rule (signal_identifier s)))
       known Map.empty"

text \<open>
  Modelled from the spec: an assigned repertoire receives the signals of its rule at the
  repertoire-level rate of the rule, an unassigned one passes through; both are flagged.
\<close>

definition process_repertoire :: "SimulationState \<Rightarrow> Implanting option \<Rightarrow> Repertoire \<Rightarrow> rng
    \<Rightarrow> (error + OutputRepertoire) \<times> rng" where
  "process_repertoire st rule repertoire g =
     (case (case rule of
              None \<Rightarrow> (Inr repertoire, g)
            | Some r \<Rightarrow> apply_signals (signals r) (repertoire_implanting_rate r) repertoire g) of
        (Inl e, g1) \<Rightarrow> (Inl e, g1)
      | (Inr new_repertoire, g1) \<Rightarrow>
          (Inr \<lparr>out_repertoire = new_repertoire,
                flags = signal_flags (state_signals st) rule\<rparr>, g1))"

text \<open>
  Modelled from the spec: the repertoires are processed in the order of the dataset, so
  that the output keeps their identity; any failure aborts the whole run.
\<close>

fun process_all :: "SimulationState \<Rightarrow> nat list list \<Rightarrow> nat \<Rightarrow> Repertoire list \<Rightarrow> rng
    \<Rightarrow> (error + OutputRepertoire list) \<times> rng" where
  "process_all st asg i [] g = (Inr [], g)"
| "process_all st asg i (repertoire # rest) g =
     (case process_repertoire st (rule_of i (simulation st) asg) repertoire g of
        (Inl e, g1) \<Rightarrow> (Inl e, g1)
      | (Inr out, g1) \<Rightarrow>
          (case process_all st asg (Suc i) rest g1 of
             (Inl e, g2) \<Rightarrow> (Inl e, g2)
           | (Inr outs, g2) \<Rightarrow> (Inr (out # outs), g2)))"

text \<open>Modelled from the spec: the assignment of the \<open>R\<close> repertoires of the dataset.\<close>

definition assignment :: "SimulationState \<Rightarrow> rng \<Rightarrow> nat list list \<times> nat list \<times> rng" where
  "assignment st g =
     assign_rules (simulation st) (length (dataset st)) [0..<length (dataset st)] g"

text \<open>Modelled from the spec: \<^verbatim>\<open>run(simulation_state)\<close>, assignment first, then processing.\<close>

definition run :: "SimulationState \<Rightarrow> rng \<Rightarrow> (error + OutputRepertoire list) \<times> rng" where
  "run st g =
     (case assignment st g of
        (asg, pool, g1) \<Rightarrow> process_all st asg 0 (dataset st) g1)"

subsection \<open>The plan of the test\<close>

text \<open>
  Two rules over ten copies of the repertoire of the test; the sequence implanting
  strategy and the two motif instantiations are parameters.
\<close>

definition test_rule1 :: "SequenceImplantingStrategy \<Rightarrow> (rng \<Rightarrow> MotifInstance option \<times> rng)
    \<Rightarrow> (rng \<Rightarrow> MotifInstance option \<times> rng) \<Rightarrow> Implanting" where
  "test_rule1 strategy inst1 inst2 =
     \<lparr>dataset_implanting_rate = 1 / 5, repertoire_implanting_rate = round_double (1 / 2),
      signals = [test_s1 strategy inst1, test_s2 strategy inst1 inst2]\<rparr>"

definition test_rule2 :: "SequenceImplantingStrategy \<Rightarrow> (rng \<Rightarrow> MotifInstance option \<times> rng)
    \<Rightarrow> (rng \<Rightarrow> MotifInstance option \<times> rng) \<Rightarrow> Implanting" where
  "test_rule2 strategy inst1 inst2 =
     \<lparr>dataset_implanting_rate = 1 / 5, repertoire_implanting_rate = round_double (1 / 2),
      signals = [test_s2 strategy inst1 inst2]\<rparr>"

definition test_state :: "SequenceImplantingStrategy \<Rightarrow> (rng \<Rightarrow> MotifInstance option \<times> rng)
    \<Rightarrow> (rng \<Rightarrow> MotifInstance option \<times> rng) \<Rightarrow> SimulationState" where
  "test_state strategy inst1 inst2 =
     \<lparr>dataset = replicate 10 test_repertoire,
      simulation = [test_rule1 strategy inst1 inst2, test_rule2 strategy inst1 inst2],
      state_signals = [test_s1 strategy inst1, test_s2 strategy inst1 inst2],
      batch_size = 1\<rparr>"

text \<open>What the scenario expects of the collaborators: they return a result.\<close>

definition never_fails :: "SequenceImplantingStrategy \<Rightarrow> bool" where
  "never_fails strategy = (\<forall>s info w g. fst (strategy s info w g) \<noteq> None)"

definition always_instantiates :: "(rng \<Rightarrow> MotifInstance option \<times> rng) \<Rightarrow> bool" where
  "always_instantiates inst = (\<forall>g. fst (inst g) \<noteq> None)"

definition st0 :: SimulationState where
  "st0 = test_state implant_at_start (seed_instantiation ''CAS'') (seed_instantiation ''CCC'')"


text \<open>A repertoire in which two of four sequences already carry an implant of \<open>s1\<close>.\<close>

definition annotated_sequence :: "string \<Rightarrow> ReceptorSequence" where
  "annotated_sequence i =
     \<lparr>amino_acid_sequence = ''CASEFG'', sequence_identifier = i,
      annotation = Some \<lparr>implants = Some
        [\<lparr>signal_id = Some ''s1'', motif_id = Some ''m1'',
          motif_instance = Some ''CAS'', position = Some 0\<rparr>]\<rparr>\<rparr>"

definition mixed_repertoire :: Repertoire where
  "mixed_repertoire =
     \<lparr>sequences = [annotated_sequence ''1'', test_sequence ''2'',
                   annotated_sequence ''3'', test_sequence ''4''],
      metadata = Some \<lparr>sample = None, md_implants = [repertoire_implant s1]\<rparr>\<rparr>"

text \<open>
  A store that holds the repertoire above and nothing else, built by allocation from
  the empty store.
\<close>

definition empty_heap :: heap where
  "empty_heap =
     \<lparr>seq_heap = (\<lambda>a. \<lparr>amino_acid_sequence = [], sequence_identifier = [], annotation = None\<rparr>),
      list_heap = (\<lambda>a. []),
      sample_heap = (\<lambda>a. \<lparr>sample_identifier = [], custom_params = []\<rparr>),
      implants_heap = (\<lambda>a. []),
      meta_heap = (\<lambda>a. \<lparr>sample_ref = None, implants_ref = 0\<rparr>),
      rep_heap = (\<lambda>a. \<lparr>sequences_ref = 0, metadata_ref = None\<rparr>),
      next_free = 0\<rparr>"

fun store_sequences :: "ReceptorSequence list \<Rightarrow> heap \<Rightarrow> addr list \<times> heap" where
  "store_sequences [] h = ([], h)"
| "store_sequences (s # ss) h =
     (case alloc_seq s h of
        (a, h1) \<Rightarrow> (case store_sequences ss h1 of (as, h2) \<Rightarrow> (a # as, h2)))"

definition store_metadata :: "RepertoireMetadata \<Rightarrow> heap \<Rightarrow> addr \<times> heap" where
  "store_metadata md h =
     (case alloc_implants (md_implants md) h of
        (i, h1) \<Rightarrow>
          (case sample md of
             None \<Rightarrow> alloc_meta \<lparr>sample_ref = None, implants_ref = i\<rparr> h1
           | Some s \<Rightarrow>
               (case alloc_sample s h1 of
                  (sa, h2) \<Rightarrow> alloc_meta \<lparr>sample_ref = Some sa, implants_ref = i\<rparr> h2)))"

definition store_repertoire :: "Repertoire \<Rightarrow> heap \<Rightarrow> addr \<times> heap" where
  "store_repertoire rep h =
     (case store_sequences (sequences rep) h of
        (as, h1) \<Rightarrow>
          (case alloc_list as h1 of
             (l, h2) \<Rightarrow>
               (case metadata rep of
                  None \<Rightarrow> alloc_rep \<lparr>sequences_ref = l, metadata_ref = None\<rparr> h2
                | Some md \<Rightarrow>
                    (case store_metadata md h2 of
                       (m, h3) \<Rightarrow> alloc_rep \<lparr>sequences_ref = l, metadata_ref = Some m\<rparr> h3))))"

definition test_heap :: heap where
  "test_heap = snd (store_repertoire mixed_repertoire empty_heap)"

definition test_ref :: addr where
  "test_ref = fst (store_repertoire mixed_repertoire empty_heap)"


section \<open>Properties of the random generator and of the helpers\<close>

lemmas implanting_defs =
  implant_in_repertoire_def calculate_max_motif_length_def
  choose_sequences_for_implanting_def implant_in_sequences_def implant_in_sequence_def
  random_choice_def random_shuffle_def randbelow_def slice_to_def slice_from_def
  build_new_repertoire_def build_new_metadata_def add_implant_def has_implants_def
  get_sequence_def get_max_length_def instantiate_motif_def init_def

lemmas test_defs =
  s1_def s2_def test_s1_def test_s2_def test_motif_def implant_at_start_def seed_instantiation_def
  test_sequence_def test_repertoire_def g0_def

lemma shuffle_from_mset:
  "i < length xs \<Longrightarrow> mset (fst (shuffle_from i xs g)) = mset xs"
proof (induction i arbitrary: xs g)
  case 0
  then show ?case by simp
next
  case (Suc i)
  obtain j g' where r: "randbelow (Suc (Suc i)) g = (j, g')"
    by (cases "randbelow (Suc (Suc i)) g")
  then have "j < Suc (Suc i)" by (auto simp: randbelow_def)
  with Suc.prems have jl: "j < length xs" by simp
  let ?ys = "xs[Suc i := xs ! j, j := xs ! Suc i]"
  have "mset ?ys = mset xs" using Suc.prems jl by (simp add: mset_swap)
  moreover have "i < length ?ys" using Suc.prems by simp
  ultimately show ?case using Suc.IH [of ?ys g'] r by simp
qed

lemma shuffle_from_pos: "pos (snd (shuffle_from i xs g)) = pos g + i"
  by (induction i arbitrary: xs g) (auto simp: randbelow_def split: prod.splits)

lemma random_shuffle_mset: "mset (fst (random_shuffle xs g)) = mset xs"
proof (cases xs)
  case Nil
  then show ?thesis by (simp add: random_shuffle_def)
next
  case (Cons a list)
  then show ?thesis by (simp add: random_shuffle_def shuffle_from_mset)
qed

lemma random_shuffle_length: "length (fst (random_shuffle xs g)) = length xs"
  using random_shuffle_mset [of xs g] by (metis size_mset)

lemma random_shuffle_set: "set (fst (random_shuffle xs g)) = set xs"
  using random_shuffle_mset [of xs g] by (metis set_mset_mset)

lemma random_shuffle_pos: "pos (snd (random_shuffle xs g)) = pos g + (length xs - 1)"
  by (simp add: random_shuffle_def shuffle_from_pos)

lemma partition_loop_filter:
  "partition_loop m ss u p =
     (u @ filter (unusable m) ss, p @ filter (\<lambda>s. \<not> unusable m s) ss)"
  by (induction ss arbitrary: u p) (auto simp: unusable_def)

lemma slice_append: "slice_to xs k @ slice_from xs k = xs"
  by (simp add: slice_to_def slice_from_def)

lemma slice_to_length:
  "0 \<le> k \<Longrightarrow> k \<le> int (length xs) \<Longrightarrow> int (length (slice_to xs k)) = k"
  by (simp add: slice_to_def)

lemma implant_loop_length:
  "implant_loop hsi signal ss g = (Inr ps, g') \<Longrightarrow> length ps = length ss"
  by (induction ss arbitrary: g ps g') (auto split: prod.splits sum.splits)

section \<open>Properties of the float product\<close>

lemma pow2_pos: "0 < pow2 e"
  by (simp add: pow2_def)

lemma round_half_even_nonneg: "0 \<le> x \<Longrightarrow> 0 \<le> round_half_even x"
  by (simp add: round_half_even_def Let_def)

lemma round_double_nonneg:
  assumes "0 \<le> x" and "round_double x = Finite y"
  shows "0 \<le> y"
proof (cases "x = 0")
  case True
  with assms(2) show ?thesis by (simp add: round_double_def)
next
  case False
  let ?e = "max (exponent \<bar>x\<bar> - 52) (- 1074)"
  let ?m = "round_half_even (\<bar>x\<bar> / pow2 ?e)"
  have "0 \<le> \<bar>x\<bar> / pow2 ?e" using pow2_pos [of ?e] by simp
  then have "0 \<le> ?m" by (rule round_half_even_nonneg)
  then have "0 \<le> of_int ?m * pow2 ?e" using pow2_pos [of ?e] by simp
  moreover from assms(1) False have "sgn x = 1" by simp
  moreover from assms(2) False have "y = sgn x * (of_int ?m * pow2 ?e)"
    by (simp add: round_double_def Let_def split: if_splits)
  ultimately show ?thesis by simp
qed

lemma requested_nonneg:
  assumes "nonnegative p" and "requested p rep = Inr n"
  shows "0 \<le> n"
proof -
  let ?N = "int (length (sequences rep))"
  from assms(2) obtain f where f: "float_of_int ?N = Inr f" and i: "py_int (fmul p f) = Inr n"
    by (auto simp: requested_def mul_float_int_def split: sum.splits)
  from f obtain y where y: "f = Finite y" "round_double (rat_of_nat (length (sequences rep))) = Finite y"
    by (cases "round_double (rat_of_nat (length (sequences rep)))") (auto simp: float_of_int_def)
  have y0: "0 \<le> y" using round_double_nonneg [OF _ y(2)] by simp
  from i obtain v where v: "fmul p f = Finite v" "n = (if 0 \<le> v then \<lfloor>v\<rfloor> else \<lceil>v\<rceil>)"
    by (auto simp: py_int_def split: pyfloat.splits)
  from assms(1) v(1) y(1) obtain x where x: "p = Finite x" "0 \<le> x"
    by (cases p) (auto simp: nonnegative_def inf_mul_def split: if_splits)
  from v(1) x(1) y(1) have "round_double (x * y) = Finite v" by simp
  with round_double_nonneg [of "x * y" v] x(2) y0 have "0 \<le> v" by simp
  with v(2) show ?thesis by simp
qed

lemma requested_errors:
  "requested p rep = Inl e \<Longrightarrow> e = OverflowError \<or> e = ValueError"
  by (auto simp: requested_def mul_float_int_def float_of_int_def py_int_def
      split: sum.splits pyfloat.splits)

lemma round_double_half: "round_double (1 / 2) = Finite (1 / 2)"
  by code_simp

lemma nonnegative_half: "nonnegative (round_double (1 / 2))"
  by (simp add: round_double_half nonnegative_def)

lemma mul_half_4: "mul_float_int (round_double (1 / 2)) 4 = Inr (Finite 2)"
  by code_simp

section \<open>The structure of a call\<close>

lemma choose_cases:
  "choose_sequences_for_implanting rep p m g =
     (case requested p rep of
        Inl e \<Rightarrow> (Inl e, g)
      | Inr n \<Rightarrow>
          (let sh = random_shuffle (candidates m rep) g
           in if int (length (candidates m rep)) < n then (Inl InsufficientEligibleSequences, g)
              else (Inr (slice_to (fst sh) n,
                         filter (unusable m) (sequences rep) @ slice_from (fst sh) n), snd sh)))"
  by (simp add: choose_sequences_for_implanting_def requested_def partition_loop_filter
      candidates_def Let_def split: prod.splits sum.splits)

lemma choose_Inr:
  assumes "choose_sequences_for_implanting rep p m g = (Inr (targets, others), g1)"
  obtains n where "requested p rep = Inr n"
    and "n \<le> int (length (candidates m rep))"
    and "targets = slice_to (fst (random_shuffle (candidates m rep) g)) n"
    and "others = filter (unusable m) (sequences rep) @
                  slice_from (fst (random_shuffle (candidates m rep) g)) n"
    and "g1 = snd (random_shuffle (candidates m rep) g)"
  using assms by (auto simp: choose_cases Let_def split: if_splits sum.splits)

lemma choose_mset:
  assumes "choose_sequences_for_implanting rep p m g = (Inr (targets, others), g1)"
  shows "mset (sequences rep) = mset others + mset targets"
proof -
  let ?sh = "fst (random_shuffle (candidates m rep) g)"
  from assms obtain n where
    t: "targets = slice_to ?sh n"
    and o: "others = filter (unusable m) (sequences rep) @ slice_from ?sh n"
    by (rule choose_Inr)
  have "mset others + mset targets =
        mset (filter (unusable m) (sequences rep)) + mset (slice_to ?sh n @ slice_from ?sh n)"
    using t o by simp
  also have "\<dots> = mset (filter (unusable m) (sequences rep)) + mset (candidates m rep)"
    by (simp only: slice_append random_shuffle_mset)
  also have "\<dots> = mset (sequences rep)"
    by (simp add: candidates_def)
  finally show ?thesis by simp
qed

lemma choose_targets_candidates:
  assumes "choose_sequences_for_implanting rep p m g = (Inr (targets, others), g1)"
  shows "set targets \<subseteq> set (candidates m rep)"
proof -
  let ?sh = "fst (random_shuffle (candidates m rep) g)"
  from assms obtain n where "targets = slice_to ?sh n" by (rule choose_Inr)
  then have "set targets \<subseteq> set ?sh"
    by (auto simp: slice_to_def dest: in_set_takeD)
  then show ?thesis by (simp add: random_shuffle_set)
qed

lemma implant_in_repertoire_Inr:
  assumes "implant_in_repertoire hsi rep p signal g = (Inr rep', g')"
  obtains targets others processed g1 where
    "motifs signal \<noteq> []"
    "choose_sequences_for_implanting rep p (max_motif_length signal) g = (Inr (targets, others), g1)"
    "implant_in_sequences hsi targets signal g1 = (Inr processed, g')"
    "rep' = build_new_repertoire (others @ processed)
              (Some (build_new_metadata (metadata rep))) signal"
  using assms
  by (auto simp: implant_in_repertoire_def calculate_max_motif_length_def max_motif_length_def
      split: if_splits prod.splits sum.splits)

lemma implant_in_sequences_Inr:
  assumes "implant_in_sequences hsi targets signal g = (Inr processed, g')"
  shows "sequence_implanting_strategy hsi \<noteq> None"
    and "implant_loop hsi signal targets g = (Inr processed, g')"
  using assms by (auto simp: implant_in_sequences_def split: if_splits)

lemma build_new_repertoire_sequences:
  "sequences (build_new_repertoire seqs md signal) = seqs"
  by (simp add: build_new_repertoire_def Let_def)

lemma build_new_repertoire_metadata:
  "metadata (build_new_repertoire seqs (Some (build_new_metadata (metadata rep))) signal) =
     Some (add_implant (build_new_metadata (metadata rep)) (repertoire_implant signal))"
  by (simp add: build_new_repertoire_def Let_def repertoire_implant_def)

lemma build_new_metadata_implants:
  "md_implants (add_implant (build_new_metadata (metadata rep)) i) = previous_implants rep @ [i]"
  by (simp add: build_new_metadata_def add_implant_def previous_implants_def Let_def
      split: option.splits)

lemma implant_loop_all2:
  "implant_loop hsi signal ss g = (Inr ps, g') \<Longrightarrow>
     list_all2 (\<lambda>t s. \<exists>ga gb. implant_in_sequence hsi t signal ga = (Inr s, gb)) ss ps"
proof (induction ss arbitrary: g ps g')
  case Nil
  then show ?case by simp
next
  case (Cons a ss)
  then show ?case by (auto split: prod.splits sum.splits)
qed

lemma implant_in_sequence_errors:
  "implant_in_sequence hsi s signal g = (Inl e, g') \<Longrightarrow>
     e \<in> {MissingSequenceImplantingStrategy, IndexError, MotifInstantiationError,
           SequenceImplantingError}"
  by (auto simp: implant_in_sequence_def random_choice_def
      split: option.splits prod.splits sum.splits if_splits)

lemma implant_loop_errors:
  "implant_loop hsi signal ss g = (Inl e, g') \<Longrightarrow>
     e \<in> {MissingSequenceImplantingStrategy, IndexError, MotifInstantiationError,
           SequenceImplantingError}"
proof (induction ss arbitrary: g)
  case Nil
  then show ?case by simp
next
  case (Cons a ss)
  show ?case
  proof (cases "implant_in_sequence hsi a signal g")
    case (Pair r g1)
    show ?thesis
    proof (cases r)
      case (Inl e1)
      with Pair Cons.prems show ?thesis
        using implant_in_sequence_errors [of hsi a signal g e1 g1] by simp
    next
      case (Inr s')
      with Pair Cons.prems show ?thesis
        using Cons.IH [of g1] by (auto split: prod.splits sum.splits)
    qed
  qed
qed

lemma choose_zero:
  assumes "requested p rep = Inr 0"
  shows "choose_sequences_for_implanting rep p m g =
           (Inr ([], filter (unusable m) (sequences rep) @ fst (random_shuffle (candidates m rep) g)),
            snd (random_shuffle (candidates m rep) g))"
  using assms by (simp add: choose_cases slice_to_def slice_from_def Let_def)

lemma choose_targets_eligible:
  assumes "choose_sequences_for_implanting rep p m g = (Inr (targets, others), g1)"
    and "t \<in> set targets"
  shows "\<not> has_implants t" and "m < length (get_sequence t)"
  using choose_targets_candidates [OF assms(1)] assms(2)
  by (auto simp: candidates_def unusable_def)

lemma choose_unusable_kept:
  assumes "choose_sequences_for_implanting rep p m g = (Inr (targets, others), g1)"
    and "s \<in> set (sequences rep)" and "unusable m s"
  shows "s \<in> set others"
proof -
  from assms(1) obtain n where
    "others = filter (unusable m) (sequences rep) @
              slice_from (fst (random_shuffle (candidates m rep) g)) n"
    by (rule choose_Inr)
  with assms(2,3) show ?thesis by simp
qed

lemma choose_others_subset:
  assumes "choose_sequences_for_implanting rep p m g = (Inr (targets, others), g1)"
  shows "set others \<subseteq> set (sequences rep)"
proof -
  have "set_mset (mset others) \<subseteq> set_mset (mset (sequences rep))"
    unfolding choose_mset [OF assms] by simp
  then show ?thesis by simp
qed

lemma implant_in_sequence_annotated:
  assumes "implant_in_sequence hsi t signal ga = (Inr s, gb)"
    and "sequence_implanting_strategy hsi = Some strategy"
    and "annotates_signal_only strategy"
    and "\<not> has_implants t"
  shows "\<forall>a \<in> set (sequence_implants s). signal_id a = Some (signal_identifier signal)"
proof -
  from assms(1,2) obtain info w g2 where
    s: "strategy t info w g2 = (Some s, gb)" and i: "info_signal_id info = signal_identifier signal"
    by (auto simp: implant_in_sequence_def split: prod.splits sum.splits option.splits)
  from assms(3) s assms(4) i show ?thesis
    unfolding annotates_signal_only_def by metis
qed

lemma implant_in_sequence_strategy:
  assumes "implant_in_sequence hsi t signal ga = (Inr s, gb)"
    and "sequence_implanting_strategy hsi = Some strategy"
  shows "implanted_by strategy hsi signal t s"
proof -
  from assms have ne: "motifs signal \<noteq> []"
    by (auto simp: implant_in_sequence_def random_choice_def split: if_splits)
  obtain i g1 where r: "randbelow (length (motifs signal)) ga = (i, g1)"
    by (cases "randbelow (length (motifs signal)) ga")
  then have "i < length (motifs signal)" using ne by (auto simp: randbelow_def)
  then have m: "motifs signal ! i \<in> set (motifs signal)" by simp
  from assms ne r obtain inst g2 where
    "strategy t \<lparr>info_signal_id = signal_identifier signal,
                  info_motif_id = motif_identifier (motifs signal ! i),
                  info_motif_instance = inst\<rparr>
       (sequence_position_weights hsi) g2 = (Some s, gb)"
    by (auto simp: implant_in_sequence_def random_choice_def
        split: prod.splits option.splits)
  with m show ?thesis unfolding implanted_by_def by blast
qed

lemma list_all2_source:
  "list_all2 P xs ys \<Longrightarrow> y \<in> set ys \<Longrightarrow> \<exists>x \<in> set xs. P x y"
  by (induction rule: list_all2_induct) auto

lemma implant_in_repertoire_exclusive:
  assumes ok: "implant_in_repertoire hsi rep p signal g = (Inr rep', g')"
    and st: "sequence_implanting_strategy hsi = Some strategy"
    and an: "annotates_signal_only strategy"
    and inv: "\<forall>s \<in> set (sequences rep). exclusive s"
  shows "\<forall>s \<in> set (sequences rep'). exclusive s"
proof
  fix s assume s: "s \<in> set (sequences rep')"
  from ok obtain targets others processed g1 where
    c: "choose_sequences_for_implanting rep p (max_motif_length signal) g
          = (Inr (targets, others), g1)"
    and i: "implant_in_sequences hsi targets signal g1 = (Inr processed, g')"
    and r: "rep' = build_new_repertoire (others @ processed)
              (Some (build_new_metadata (metadata rep))) signal"
    by (rule implant_in_repertoire_Inr)
  from s r have "s \<in> set others \<or> s \<in> set processed"
    by (simp add: build_new_repertoire_sequences)
  then show "exclusive s"
  proof
    assume "s \<in> set others"
    with choose_others_subset [OF c] inv show ?thesis by blast
  next
    assume sp: "s \<in> set processed"
    have "list_all2 (\<lambda>t s. \<exists>ga gb. implant_in_sequence hsi t signal ga = (Inr s, gb))
            targets processed"
      using implant_in_sequences_Inr(2) [OF i] by (rule implant_loop_all2)
    with sp obtain t ga gb where
      t: "t \<in> set targets" and imp: "implant_in_sequence hsi t signal ga = (Inr s, gb)"
      by (blast dest: list_all2_source)
    have "\<not> has_implants t" using choose_targets_eligible(1) [OF c t] .
    from implant_in_sequence_annotated [OF imp st an this]
    show ?thesis by (simp add: exclusive_def)
  qed
qed

section \<open>The claims about the healthy-sequence strategy\<close>

text \<open>
  C2 (rate conformance), as stated. The number of newly implanted sequences is not
  \<open>floor (p * N)\<close>: for the rate \<^verbatim>\<open>0.6666666666666666\<close> and three sequences without
  implants the floor is 1, on the decimal value of the literal as on the exact value of
  the float, and the returned repertoire has two implanted sequences, because the float
  product is rounded to 2.0 before \<^verbatim>\<open>int()\<close> truncates it.
\<close>

theorem rate_conformance_counterexample:
  "round_double (6666666666666666 / 10000000000000000)
     = Finite (6004799503160661 / 9007199254740992) \<and>
   spec_requested (6666666666666666 / 10000000000000000) three_repertoire = 1 \<and>
   spec_requested (6004799503160661 / 9007199254740992) three_repertoire = 1 \<and>
   map has_implants (sequences three_repertoire) = [False, False, False] \<and>
   map_sum id (\<lambda>r. map has_implants (sequences r))
     (fst (implant_in_repertoire (implanting_strategy s1) three_repertoire
             (round_double (6666666666666666 / 10000000000000000)) s1 g0))
     = Inr [False, True, True]"
  by code_simp

text \<open>
  C2, as the code has it. For a rate \<open>p \<ge> 0\<close>, a call of \<^verbatim>\<open>implant_in_repertoire\<close> that
  returns has requested \<open>n = int (p * N)\<close> sequences, the truncation of the float product,
  and exactly \<open>n\<close> sequences of the result are newly implanted: the input splits into the
  targets and the \<open>N - n\<close> sequences carried through, and the result is the latter
  followed by \<open>n\<close> sequences, each returned by the sequence implanting strategy for one
  target that carried no implant.
\<close>

theorem rate_conformance:
  assumes "nonnegative p"
    and "implant_in_repertoire hsi rep p signal g = (Inr rep', g')"
  shows "\<exists>n strategy targets others processed.
           requested p rep = Inr n
         \<and> sequence_implanting_strategy hsi = Some strategy
         \<and> mset (sequences rep) = mset others + mset targets
         \<and> sequences rep' = others @ processed
         \<and> list_all2 (\<lambda>t s. \<not> has_implants t \<and> implanted_by strategy hsi signal t s)
              targets processed
         \<and> int (length processed) = n
         \<and> int (length others) = int (length (sequences rep)) - n"
proof -
  from assms(2) obtain targets others processed g1 where
    c: "choose_sequences_for_implanting rep p (max_motif_length signal) g
          = (Inr (targets, others), g1)"
    and i: "implant_in_sequences hsi targets signal g1 = (Inr processed, g')"
    and r: "rep' = build_new_repertoire (others @ processed)
              (Some (build_new_metadata (metadata rep))) signal"
    by (rule implant_in_repertoire_Inr)
  let ?sh = "fst (random_shuffle (candidates (max_motif_length signal) rep) g)"
  from c obtain n where n: "requested p rep = Inr n"
    and le: "n \<le> int (length (candidates (max_motif_length signal) rep))"
    and t: "targets = slice_to ?sh n"
    by (rule choose_Inr)
  have n0: "0 \<le> n" using assms(1) n by (rule requested_nonneg)
  have "n \<le> int (length ?sh)" using le by (simp add: random_shuffle_length)
  with n0 have lt: "int (length targets) = n" unfolding t by (rule slice_to_length)
  from implant_in_sequences_Inr(1) [OF i] obtain strategy where
    st: "sequence_implanting_strategy hsi = Some strategy" by blast
  have l: "implant_loop hsi signal targets g1 = (Inr processed, g')"
    using i by (rule implant_in_sequences_Inr(2))
  have m: "mset (sequences rep) = mset others + mset targets"
    using c by (rule choose_mset)
  have s: "sequences rep' = others @ processed"
    using r by (simp add: build_new_repertoire_sequences)
  have "list_all2 (\<lambda>t s. \<exists>ga gb. implant_in_sequence hsi t signal ga = (Inr s, gb))
          targets processed"
    using l by (rule implant_loop_all2)
  then have a: "list_all2 (\<lambda>t s. \<not> has_implants t \<and> implanted_by strategy hsi signal t s)
                  targets processed"
  proof (rule list.rel_mono_strong)
    fix t s
    assume "t \<in> set targets" and "\<exists>ga gb. implant_in_sequence hsi t signal ga = (Inr s, gb)"
    with choose_targets_eligible(1) [OF c] implant_in_sequence_strategy [OF _ st]
    show "\<not> has_implants t \<and> implanted_by strategy hsi signal t s" by blast
  qed
  have lp: "int (length processed) = n"
    using implant_loop_length [OF l] lt by simp
  have "length (sequences rep) = length others + length targets"
    using m by (metis size_mset size_union)
  then have lo: "int (length others) = int (length (sequences rep)) - n"
    using lt by simp
  from n st m s a lp lo show ?thesis by - (intro exI conjI; assumption)
qed

theorem rate_conformance_witness:
  "nonnegative (round_double (1 / 2)) \<and>
   (\<exists>rep' g' targets others processed.
      implant_in_repertoire (implanting_strategy s1) test_repertoire (round_double (1 / 2)) s1 g0
        = (Inr rep', g')
    \<and> requested (round_double (1 / 2)) test_repertoire = Inr 2
    \<and> mset (sequences test_repertoire) = mset others + mset targets
    \<and> sequences rep' = others @ processed
    \<and> list_all2 (\<lambda>t s. \<not> has_implants t
                      \<and> implanted_by implant_at_start (implanting_strategy s1) s1 t s)
         targets processed
    \<and> int (length processed) = 2
    \<and> int (length others) = 2)"
proof -
  let ?r = "implant_in_repertoire (implanting_strategy s1) test_repertoire
              (round_double (1 / 2)) s1 g0"
  have "\<not> isl (fst ?r)" by code_simp
  then obtain r g' where r: "?r = (Inr r, g')" by (cases ?r; cases "fst ?r") auto
  have q: "requested (round_double (1 / 2)) test_repertoire = Inr 2"
    by (simp add: requested_def test_repertoire_def mul_half_4 py_int_def)
  have st: "sequence_implanting_strategy (implanting_strategy s1) = Some implant_at_start"
    by (simp add: s1_def test_s1_def init_def)
  have l: "int (length (sequences test_repertoire)) = 4" by (simp add: test_repertoire_def)
  from rate_conformance [OF nonnegative_half r] obtain n strategy targets others processed where
    "requested (round_double (1 / 2)) test_repertoire = Inr n"
    "sequence_implanting_strategy (implanting_strategy s1) = Some strategy"
    "mset (sequences test_repertoire) = mset others + mset targets"
    "sequences r = others @ processed"
    "list_all2 (\<lambda>t s. \<not> has_implants t
                   \<and> implanted_by strategy (implanting_strategy s1) s1 t s) targets processed"
    "int (length processed) = n"
    "int (length others) = int (length (sequences test_repertoire)) - n"
    by blast
  then have
    "mset (sequences test_repertoire) = mset others + mset targets"
    "sequences r = others @ processed"
    "list_all2 (\<lambda>t s. \<not> has_implants t
                   \<and> implanted_by implant_at_start (implanting_strategy s1) s1 t s)
       targets processed"
    "int (length processed) = 2"
    "int (length others) = 2"
    unfolding q st l by simp_all
  with nonnegative_half r q show ?thesis by - (intro exI conjI; assumption)
qed

text \<open>
  C3 (fail fast), as stated. The assertion does not fire exactly when \<open>floor (p * N)\<close>
  exceeds the number of candidates: for the rate \<^verbatim>\<open>0.6666666666666666\<close> and three
  sequences of which one is a candidate the floor is 1, which the candidates cover, and
  the call raises, because the float product is rounded to 2.0.
\<close>

theorem insufficient_iff_counterexample:
  "round_double (6666666666666666 / 10000000000000000)
     = Finite (6004799503160661 / 9007199254740992) \<and>
   spec_requested (6666666666666666 / 10000000000000000) one_candidate_repertoire = 1 \<and>
   spec_requested (6004799503160661 / 9007199254740992) one_candidate_repertoire = 1 \<and>
   length (candidates (max_motif_length s1) one_candidate_repertoire) = 1 \<and>
   fst (implant_in_repertoire (implanting_strategy s1) one_candidate_repertoire
          (round_double (6666666666666666 / 10000000000000000)) s1 g0)
     = Inl InsufficientEligibleSequences"
  by code_simp

text \<open>
  C3, as the code has it. For a signal with at least one motif, \<^verbatim>\<open>implant_in_repertoire\<close>
  raises the insufficient-sequences assertion if and only if the requested count
  \<open>n = int (p * N)\<close>, the truncation of the float product, exceeds the number of candidates;
  it never goes on with fewer targets.
\<close>

theorem insufficient_iff:
  assumes "motifs signal \<noteq> []"
  shows "(\<exists>g'. implant_in_repertoire hsi rep p signal g = (Inl InsufficientEligibleSequences, g'))
         \<longleftrightarrow> (\<exists>n. requested p rep = Inr n
                  \<and> int (length (candidates (max_motif_length signal) rep)) < n)"
proof -
  have m: "calculate_max_motif_length signal = Inr (max_motif_length signal)"
    using assms by (simp add: calculate_max_motif_length_def max_motif_length_def)
  show ?thesis
  proof (cases "requested p rep")
    case (Inl e)
    with requested_errors [OF Inl] show ?thesis
      by (auto simp: implant_in_repertoire_def m choose_cases)
  next
    case (Inr n)
    then show ?thesis
      by (auto simp: implant_in_repertoire_def m choose_cases Let_def implant_in_sequences_def
          split: prod.splits sum.splits dest: implant_loop_errors)
  qed
qed

theorem insufficient_iff_witness:
  "motifs s1 \<noteq> [] \<and>
   (\<exists>g'. implant_in_repertoire (implanting_strategy s1) short_repertoire (round_double (1 / 2))
            s1 g0 = (Inl InsufficientEligibleSequences, g')) \<and>
   requested (round_double (1 / 2)) short_repertoire = Inr 1 \<and>
   length (candidates (max_motif_length s1) short_repertoire) = 0 \<and>
   \<not> (\<exists>g'. implant_in_repertoire (implanting_strategy s1) test_repertoire (round_double (1 / 2))
            s1 g0 = (Inl InsufficientEligibleSequences, g')) \<and>
   requested (round_double (1 / 2)) test_repertoire = Inr 2 \<and>
   length (candidates (max_motif_length s1) test_repertoire) = 4"
proof -
  have m: "motifs s1 \<noteq> []" by (simp add: s1_def test_s1_def)
  have a: "requested (round_double (1 / 2)) short_repertoire = Inr 1" by code_simp
  have b: "length (candidates (max_motif_length s1) short_repertoire) = 0" by code_simp
  have c: "requested (round_double (1 / 2)) test_repertoire = Inr 2" by code_simp
  have d: "length (candidates (max_motif_length s1) test_repertoire) = 4" by code_simp
  from m a b c d
    insufficient_iff [OF m, of "implanting_strategy s1" short_repertoire "round_double (1 / 2)" g0]
    insufficient_iff [OF m, of "implanting_strategy s1" test_repertoire "round_double (1 / 2)" g0]
  show ?thesis by simp
qed

text \<open>
  C6 (sequence conservation). The sequences of the input repertoire split into those
  carried through and the targets; the returned repertoire holds the former unchanged,
  followed by one implanted version of each target, so the counts agree; its metadata
  gains one implant annotation that carries the signal id only.
\<close>

theorem sequence_conservation:
  assumes "implant_in_repertoire hsi rep p signal g = (Inr rep', g')"
  shows "\<exists>targets others processed.
           mset (sequences rep) = mset others + mset targets
         \<and> sequences rep' = others @ processed
         \<and> list_all2 (\<lambda>t s. \<exists>ga gb. implant_in_sequence hsi t signal ga = (Inr s, gb))
              targets processed
         \<and> length (sequences rep') = length (sequences rep)
         \<and> (\<exists>md. metadata rep' = Some md
                \<and> md_implants md = previous_implants rep @ [repertoire_implant signal])"
proof -
  from assms obtain targets others processed g1 where
    c: "choose_sequences_for_implanting rep p (max_motif_length signal) g
          = (Inr (targets, others), g1)"
    and i: "implant_in_sequences hsi targets signal g1 = (Inr processed, g')"
    and r: "rep' = build_new_repertoire (others @ processed)
              (Some (build_new_metadata (metadata rep))) signal"
    by (rule implant_in_repertoire_Inr)
  have l: "implant_loop hsi signal targets g1 = (Inr processed, g')"
    using i by (rule implant_in_sequences_Inr(2))
  have m: "mset (sequences rep) = mset others + mset targets"
    using c by (rule choose_mset)
  have s: "sequences rep' = others @ processed"
    using r by (simp add: build_new_repertoire_sequences)
  have a: "list_all2 (\<lambda>t s. \<exists>ga gb. implant_in_sequence hsi t signal ga = (Inr s, gb))
             targets processed"
    using l by (rule implant_loop_all2)
  have "length (sequences rep) = length others + length targets"
    using m by (metis size_mset size_union)
  then have n: "length (sequences rep') = length (sequences rep)"
    using s implant_loop_length [OF l] by simp
  have d: "\<exists>md. metadata rep' = Some md
             \<and> md_implants md = previous_implants rep @ [repertoire_implant signal]"
    using r by (simp add: build_new_repertoire_metadata build_new_metadata_implants)
  from m s a n d show ?thesis by blast
qed


theorem sequence_conservation_witness:
  "\<exists>rep' g' targets others processed.
      implant_in_repertoire (implanting_strategy s2) test_repertoire (round_double (1 / 2)) s2 g0
        = (Inr rep', g')
    \<and> mset (sequences test_repertoire) = mset others + mset targets
    \<and> sequences rep' = others @ processed
    \<and> length (sequences rep') = 4
    \<and> (\<exists>md. metadata rep' = Some md \<and> md_implants md = [repertoire_implant s2])"
proof -
  let ?r = "implant_in_repertoire (implanting_strategy s2) test_repertoire
              (round_double (1 / 2)) s2 g0"
  have "\<not> isl (fst ?r)" by code_simp
  then obtain r g' where r: "?r = (Inr r, g')" by (cases ?r; cases "fst ?r") auto
  have n: "length (sequences test_repertoire) = 4" "previous_implants test_repertoire = []"
    by (simp_all add: test_repertoire_def previous_implants_def)
  from sequence_conservation [OF r] obtain targets others processed where
    "mset (sequences test_repertoire) = mset others + mset targets"
    "sequences r = others @ processed"
    "length (sequences r) = 4"
    "\<exists>md. metadata r = Some md \<and> md_implants md = [repertoire_implant s2]"
    unfolding n by auto
  with r show ?thesis by blast
qed



text \<open>
  C8 (a missing strategy). The claim that a missing sequence implanting strategy is
  reported before any random draw fails: the constructor accepts it, and the call below
  raises only after the shuffle of the four candidates has consumed three draws.
\<close>

theorem missing_strategy_counterexample:
  "sequence_implanting_strategy (init None None) = None \<and>
   fst (implant_in_repertoire (init None None) test_repertoire (round_double (1 / 2)) s1 g0)
     = Inl MissingSequenceImplantingStrategy \<and>
   pos g0 = 0 \<and>
   pos (snd (implant_in_repertoire (init None None) test_repertoire (round_double (1 / 2)) s1 g0))
     = 3"
  by code_simp

text \<open>
  C8, as the code has it. On an object built without a strategy every call of
  \<^verbatim>\<open>implant_in_repertoire\<close> raises, so nothing is defaulted: a ValueError for a signal
  without motifs, the error of \<^verbatim>\<open>int()\<close> when the float product is infinite or not a
  number, the insufficient-sequences assertion when the requested count exceeds the
  candidates, and otherwise the missing-strategy assertion, raised after the shuffle of
  the candidates has consumed its draws, one fewer than there are candidates.
\<close>

theorem missing_strategy_raises_at_use:
  "implant_in_repertoire (init None w) rep p signal g =
     (if motifs signal = [] then (Inl ValueError, g)
      else (case requested p rep of
              Inl e \<Rightarrow> (Inl e, g)
            | Inr n \<Rightarrow>
                if int (length (candidates (max_motif_length signal) rep)) < n
                then (Inl InsufficientEligibleSequences, g)
                else (Inl MissingSequenceImplantingStrategy,
                      snd (random_shuffle (candidates (max_motif_length signal) rep) g))))
   \<and> pos (snd (random_shuffle (candidates (max_motif_length signal) rep) g))
       = pos g + (length (candidates (max_motif_length signal) rep) - 1)"
  by (simp add: implant_in_repertoire_def calculate_max_motif_length_def max_motif_length_def
      choose_cases Let_def implant_in_sequences_def init_def random_shuffle_pos
      split: sum.splits)

text \<open>
  C10 (zero implants), as stated. \<open>floor (p * N) = 0\<close> does not keep the sequences as they
  are: for the rate \<^verbatim>\<open>0.3333333333333333\<close> and three sequences the floor is 0, on the
  decimal value of the literal as on the exact value of the float, and the call implants
  one sequence, because the float product is rounded to 1.0.
\<close>

theorem zero_implant_counterexample:
  "round_double (3333333333333333 / 10000000000000000)
     = Finite (6004799503160661 / 18014398509481984) \<and>
   spec_requested (3333333333333333 / 10000000000000000) three_repertoire = 0 \<and>
   spec_requested (6004799503160661 / 18014398509481984) three_repertoire = 0 \<and>
   map has_implants (sequences three_repertoire) = [False, False, False] \<and>
   map_sum id (\<lambda>r. map has_implants (sequences r))
     (fst (implant_in_repertoire (implanting_strategy s1) three_repertoire
             (round_double (3333333333333333 / 10000000000000000)) s1 g0))
     = Inr [False, False, True]"
  by code_simp

text \<open>
  C10, as the code has it. When the requested count \<open>int (p * N)\<close>, the truncation of the
  float product, is 0, a call on an object with a strategy and a signal with a motif
  returns a repertoire with the same sequences, none of them modified, whose metadata
  nevertheless gains the implant annotation of the signal.
\<close>

theorem zero_implant:
  assumes "motifs signal \<noteq> []"
    and "sequence_implanting_strategy hsi \<noteq> None"
    and "requested p rep = Inr 0"
  shows "\<exists>rep' g'. implant_in_repertoire hsi rep p signal g = (Inr rep', g')
           \<and> mset (sequences rep') = mset (sequences rep)
           \<and> (\<exists>md. metadata rep' = Some md
                  \<and> md_implants md = previous_implants rep @ [repertoire_implant signal])"
proof -
  let ?m = "max_motif_length signal"
  let ?sh = "random_shuffle (candidates ?m rep) g"
  let ?seqs = "filter (unusable ?m) (sequences rep) @ fst ?sh"
  have m: "calculate_max_motif_length signal = Inr ?m"
    using assms(1) by (simp add: calculate_max_motif_length_def max_motif_length_def)
  have r: "implant_in_repertoire hsi rep p signal g =
             (Inr (build_new_repertoire ?seqs (Some (build_new_metadata (metadata rep))) signal),
              snd ?sh)"
    using assms(2)
    by (simp add: implant_in_repertoire_def m choose_zero [OF assms(3)] implant_in_sequences_def)
  have "mset ?seqs = mset (sequences rep)"
    by (simp add: random_shuffle_mset candidates_def)
  then show ?thesis
    unfolding r
    by (simp add: build_new_repertoire_sequences build_new_repertoire_metadata
        build_new_metadata_implants)
qed

theorem zero_implant_witness:
  "motifs s1 \<noteq> [] \<and>
   sequence_implanting_strategy (implanting_strategy s1) \<noteq> None \<and>
   requested (round_double (1 / 5)) test_repertoire = Inr 0 \<and>
   requested (Finite 0) test_repertoire = Inr 0 \<and>
   (\<exists>rep' g'.
      implant_in_repertoire (implanting_strategy s1) test_repertoire (round_double (1 / 5)) s1 g0
        = (Inr rep', g')
    \<and> mset (sequences rep') = mset (sequences test_repertoire)
    \<and> (\<exists>md. metadata rep' = Some md
           \<and> md_implants md = previous_implants test_repertoire @ [repertoire_implant s1]))"
proof -
  have m: "motifs s1 \<noteq> []" by (simp add: s1_def test_s1_def)
  have s: "sequence_implanting_strategy (implanting_strategy s1) \<noteq> None"
    by (simp add: s1_def test_s1_def init_def)
  have n: "requested (round_double (1 / 5)) test_repertoire = Inr 0"
    by code_simp
  have z: "requested (Finite 0) test_repertoire = Inr 0"
    by code_simp
  from m s n z zero_implant [OF m s n, of g0] show ?thesis by blast
qed

section \<open>Properties of the orchestrator\<close>

lemma assign_rules_partition:
  "assign_rules rules R pool g = (asg, pool', g') \<Longrightarrow>
     mset (concat asg @ pool') = mset pool \<and> length asg = length rules"
proof (induction rules arbitrary: pool g asg pool' g')
  case Nil
  then show ?case by simp
next
  case (Cons rule rules)
  obtain sh g1 where sh: "random_shuffle pool g = (sh, g1)" by (cases "random_shuffle pool g")
  obtain rest p2 g2 where r: "assign_rules rules R (drop (rule_count rule R) sh) g1 = (rest, p2, g2)"
    by (cases "assign_rules rules R (drop (rule_count rule R) sh) g1")
  from Cons.prems sh r have e: "asg = take (rule_count rule R) sh # rest" "pool' = p2" by simp_all
  from Cons.IH [OF r] have ih: "mset (concat rest @ p2) = mset (drop (rule_count rule R) sh)"
    "length rest = length rules" by simp_all
  have "mset sh = mset pool" using random_shuffle_mset [of pool g] sh by simp
  moreover have "mset (take (rule_count rule R) sh) + mset (drop (rule_count rule R) sh) = mset sh"
    by (metis append_take_drop_id mset_append)
  ultimately show ?case using e ih by (simp add: ac_simps)
qed



lemma signal_flags_fold:
  "fold (\<lambda>s m. m(flag_key (signal_identifier s) \<mapsto> f (signal_identifier s))) known m0 (flag_key i) =
     (if i \<in> set (map signal_identifier known) then Some (f i) else m0 (flag_key i))"
  by (induction known arbitrary: m0) (auto simp: flag_key_def)

lemma signal_flags_known:
  "s \<in> set known \<Longrightarrow>
     signal_flags known rule (flag_key (signal_identifier s)) = Some (touched rule (signal_identifier s))"
  by (simp add: signal_flags_def signal_flags_fold)

lemma process_repertoire_Inr:
  assumes "process_repertoire st rule rep g = (Inr out, g')"
  shows "flags out = signal_flags (state_signals st) rule"
    and "rule = None \<Longrightarrow> out_repertoire out = rep \<and> g' = g"
    and "rule = Some r \<Longrightarrow>
           apply_signals (signals r) (repertoire_implanting_rate r) rep g
             = (Inr (out_repertoire out), g')"
  using assms
  by (auto simp: process_repertoire_def split: option.splits prod.splits sum.splits)

lemma process_all_Inr:
  "process_all st asg i reps g = (Inr outs, g') \<Longrightarrow>
     length outs = length reps \<and>
     (\<forall>k < length reps. \<exists>ga gb.
        process_repertoire st (rule_of (i + k) (simulation st) asg) (reps ! k) ga
          = (Inr (outs ! k), gb))"
proof (induction reps arbitrary: i g outs)
  case Nil
  then show ?case by simp
next
  case (Cons rep reps)
  from Cons.prems obtain out g1 rest where
    o: "process_repertoire st (rule_of i (simulation st) asg) rep g = (Inr out, g1)"
    and r: "process_all st asg (Suc i) reps g1 = (Inr rest, g')"
    and e: "outs = out # rest"
    by (auto split: prod.splits sum.splits)
  from Cons.IH [OF r] have l: "length rest = length reps"
    and ih: "\<And>k. k < length reps \<Longrightarrow> \<exists>ga gb.
        process_repertoire st (rule_of (Suc i + k) (simulation st) asg) (reps ! k) ga
          = (Inr (rest ! k), gb)" by auto
  have "\<exists>ga gb. process_repertoire st (rule_of (i + k) (simulation st) asg) ((rep # reps) ! k) ga
          = (Inr (outs ! k), gb)" if "k < length (rep # reps)" for k
  proof (cases k)
    case 0
    with o e show ?thesis by auto
  next
    case (Suc j)
    with that ih [of j] e show ?thesis by simp
  qed
  with l e show ?case by simp
qed

lemma rule_of_None:
  "i \<notin> set (concat asg) \<Longrightarrow> rule_of i rules asg = None"
  by (induction i rules asg rule: rule_of.induct) auto

lemma rule_of_Some:
  "rule_of i rules asg = Some r \<Longrightarrow> r \<in> set rules \<and> i \<in> set (concat asg)"
  by (induction i rules asg rule: rule_of.induct) (auto split: if_splits)

lemma assignment_partition_sets:
  assumes "assignment st g = (asg, pool, g1)"
  shows "distinct (concat asg @ pool)"
    and "set (concat asg @ pool) = {0..<length (dataset st)}"
    and "length asg = length (simulation st)"
proof -
  from assms have m: "mset (concat asg @ pool) = mset [0..<length (dataset st)]"
    and l: "length asg = length (simulation st)"
    using assign_rules_partition [of "simulation st" "length (dataset st)"
        "[0..<length (dataset st)]" g asg pool g1]
    by (simp_all add: assignment_def)
  from m show "distinct (concat asg @ pool)"
    by (metis distinct_upt mset_eq_imp_distinct_iff)
  from m show "set (concat asg @ pool) = {0..<length (dataset st)}"
    by (metis mset_eq_setD set_upt)
  from l show "length asg = length (simulation st)" .
qed

lemma run_Inr:
  assumes "run st g = (Inr out, g')" and "assignment st g = (asg, pool, g1)"
  shows "length out = length (dataset st)"
    and "\<And>i. i < length (dataset st) \<Longrightarrow> \<exists>ga gb.
           process_repertoire st (rule_of i (simulation st) asg) (dataset st ! i) ga
             = (Inr (out ! i), gb)"
proof -
  from assms have p: "process_all st asg 0 (dataset st) g1 = (Inr out, g')"
    by (simp add: run_def)
  from process_all_Inr [OF p] show "length out = length (dataset st)" by simp
  fix i assume "i < length (dataset st)"
  with process_all_Inr [OF p] show "\<exists>ga gb.
           process_repertoire st (rule_of i (simulation st) asg) (dataset st ! i) ga
             = (Inr (out ! i), gb)" by simp
qed

lemma apply_signals_exclusive:
  assumes "apply_signals ss p rep g = (Inr rep', g')"
    and "\<forall>s \<in> set ss. \<forall>strategy.
           sequence_implanting_strategy (implanting_strategy s) = Some strategy
             \<longrightarrow> annotates_signal_only strategy"
    and "\<forall>s \<in> set (sequences rep). exclusive s"
  shows "\<forall>s \<in> set (sequences rep'). exclusive s"
  using assms
proof (induction ss arbitrary: rep g)
  case Nil
  then show ?case by simp
next
  case (Cons s ss)
  from Cons.prems(1) obtain rep1 g1 where
    a: "implant_in_repertoire (implanting_strategy s) rep p s g = (Inr rep1, g1)"
    and b: "apply_signals ss p rep1 g1 = (Inr rep', g')"
    by (auto split: prod.splits sum.splits)
  from a obtain targets others processed g2 where
    "implant_in_sequences (implanting_strategy s) targets s g2 = (Inr processed, g1)"
    by (rule implant_in_repertoire_Inr)
  then obtain strategy where
    st: "sequence_implanting_strategy (implanting_strategy s) = Some strategy"
    using implant_in_sequences_Inr(1) by blast
  with Cons.prems(2) have "annotates_signal_only strategy" by simp
  from implant_in_repertoire_exclusive [OF a st this Cons.prems(3)]
  have "\<forall>s \<in> set (sequences rep1). exclusive s" .
  with Cons.IH [OF b] Cons.prems(2) show ?case by simp
qed

lemma run_exclusive:
  assumes "run st g = (Inr out, g')"
    and "\<forall>r \<in> set (simulation st). \<forall>s \<in> set (signals r). \<forall>strategy.
           sequence_implanting_strategy (implanting_strategy s) = Some strategy
             \<longrightarrow> annotates_signal_only strategy"
    and "\<forall>rep \<in> set (dataset st). \<forall>s \<in> set (sequences rep). exclusive s"
  shows "\<forall>x \<in> set out. \<forall>s \<in> set (sequences (out_repertoire x)). exclusive s"
proof
  fix x assume "x \<in> set out"
  obtain asg pool g1 where a: "assignment st g = (asg, pool, g1)"
    by (cases "assignment st g")
  from \<open>x \<in> set out\<close> obtain i where i: "i < length out" "x = out ! i"
    by (auto simp: in_set_conv_nth)
  with run_Inr(1) [OF assms(1) a] have il: "i < length (dataset st)" by simp
  from run_Inr(2) [OF assms(1) a il] i obtain ga gb where
    p: "process_repertoire st (rule_of i (simulation st) asg) (dataset st ! i) ga = (Inr x, gb)"
    by blast
  from il have "dataset st ! i \<in> set (dataset st)" by simp
  with assms(3) have inv: "\<forall>s \<in> set (sequences (dataset st ! i)). exclusive s" by blast
  show "\<forall>s \<in> set (sequences (out_repertoire x)). exclusive s"
  proof (cases "rule_of i (simulation st) asg")
    case None
    with process_repertoire_Inr(2) [OF p] inv show ?thesis by simp
  next
    case (Some r)
    from rule_of_Some [OF Some] assms(2)
    have c: "\<forall>s \<in> set (signals r). \<forall>strategy.
           sequence_implanting_strategy (implanting_strategy s) = Some strategy
             \<longrightarrow> annotates_signal_only strategy" by blast
    from process_repertoire_Inr(3) [OF p Some] apply_signals_exclusive [OF _ c inv]
    show ?thesis by blast
  qed
qed

lemma implant_in_sequence_succeeds:
  assumes "sequence_implanting_strategy hsi = Some strategy"
    and "never_fails strategy"
    and "\<forall>m \<in> set (motifs signal). always_instantiates (instantiation_strategy m)"
    and "motifs signal \<noteq> []"
  shows "\<exists>s' g'. implant_in_sequence hsi s signal g = (Inr s', g')"
proof -
  obtain i g1 where r: "randbelow (length (motifs signal)) g = (i, g1)"
    by (cases "randbelow (length (motifs signal)) g")
  then have "i < length (motifs signal)" using assms(4) by (auto simp: randbelow_def)
  then have "motifs signal ! i \<in> set (motifs signal)" by simp
  with assms(3) have "fst (instantiation_strategy (motifs signal ! i) g1) \<noteq> None"
    by (simp add: always_instantiates_def)
  then obtain inst g2 where i: "instantiate_motif (motifs signal ! i) g1 = (Some inst, g2)"
    by (cases "instantiation_strategy (motifs signal ! i) g1") (auto simp: instantiate_motif_def)
  let ?info = "\<lparr>info_signal_id = signal_identifier signal,
                 info_motif_id = motif_identifier (motifs signal ! i),
                 info_motif_instance = inst\<rparr>"
  from assms(2) have "fst (strategy s ?info (sequence_position_weights hsi) g2) \<noteq> None"
    by (simp add: never_fails_def)
  then obtain s' g3 where "strategy s ?info (sequence_position_weights hsi) g2 = (Some s', g3)"
    by (cases "strategy s ?info (sequence_position_weights hsi) g2") auto
  with assms(1,4) r i show ?thesis
    by (simp add: implant_in_sequence_def random_choice_def)
qed

lemma implant_loop_succeeds:
  assumes "sequence_implanting_strategy hsi = Some strategy"
    and "never_fails strategy"
    and "\<forall>m \<in> set (motifs signal). always_instantiates (instantiation_strategy m)"
    and "motifs signal \<noteq> []"
  shows "\<exists>ps g'. implant_loop hsi signal ss g = (Inr ps, g')"
proof (induction ss arbitrary: g)
  case Nil
  then show ?case by simp
next
  case (Cons s ss)
  from implant_in_sequence_succeeds [OF assms] obtain s' g1 where
    "implant_in_sequence hsi s signal g = (Inr s', g1)" by blast
  moreover from Cons.IH obtain ps g2 where "implant_loop hsi signal ss g1 = (Inr ps, g2)"
    by blast
  ultimately show ?case by simp
qed

lemma implant_in_repertoire_succeeds:
  assumes "sequence_implanting_strategy hsi = Some strategy"
    and "never_fails strategy"
    and "\<forall>m \<in> set (motifs signal). always_instantiates (instantiation_strategy m)"
    and "motifs signal \<noteq> []"
    and "requested p rep = Inr n"
    and "n \<le> int (length (candidates (max_motif_length signal) rep))"
  shows "\<exists>rep' g'. implant_in_repertoire hsi rep p signal g = (Inr rep', g')"
proof -
  let ?m = "max_motif_length signal"
  let ?sh = "random_shuffle (candidates ?m rep) g"
  have m: "calculate_max_motif_length signal = Inr ?m"
    using assms(4) by (simp add: calculate_max_motif_length_def max_motif_length_def)
  have c: "choose_sequences_for_implanting rep p ?m g =
      (Inr (slice_to (fst ?sh) n, filter (unusable ?m) (sequences rep) @ slice_from (fst ?sh) n),
       snd ?sh)"
    using assms(5,6) by (simp add: choose_cases Let_def)
  from implant_loop_succeeds [OF assms(1-4)] obtain ps g' where
    "implant_loop hsi signal (slice_to (fst ?sh) n) (snd ?sh) = (Inr ps, g')" by blast
  with assms(1) m c show ?thesis
    by (simp add: implant_in_repertoire_def implant_in_sequences_def)
qed

lemma implant_in_repertoire_length:
  assumes "implant_in_repertoire hsi rep p signal g = (Inr rep', g')"
  shows "length (sequences rep') = length (sequences rep)"
proof -
  from assms obtain targets others processed g1 where
    c: "choose_sequences_for_implanting rep p (max_motif_length signal) g
          = (Inr (targets, others), g1)"
    and i: "implant_in_sequences hsi targets signal g1 = (Inr processed, g')"
    and r: "rep' = build_new_repertoire (others @ processed)
              (Some (build_new_metadata (metadata rep))) signal"
    by (rule implant_in_repertoire_Inr)
  have "length (sequences rep) = length others + length targets"
    using choose_mset [OF c] by (metis size_mset size_union)
  moreover have "length processed = length targets"
    using implant_in_sequences_Inr(2) [OF i] by (rule implant_loop_length)
  ultimately show ?thesis using r by (simp add: build_new_repertoire_sequences)
qed

lemma implant_in_repertoire_candidates_left:
  assumes "implant_in_repertoire hsi rep p signal g = (Inr rep', g')"
    and "nonnegative p" and "requested p rep = Inr n"
  shows "int (length (candidates (max_motif_length signal) rep)) - n
           \<le> int (length (candidates (max_motif_length signal) rep'))"
proof -
  let ?m = "max_motif_length signal"
  let ?sh = "fst (random_shuffle (candidates ?m rep) g)"
  from assms(1) obtain targets others processed g1 where
    c: "choose_sequences_for_implanting rep p ?m g = (Inr (targets, others), g1)"
    and r: "rep' = build_new_repertoire (others @ processed)
              (Some (build_new_metadata (metadata rep))) signal"
    by (rule implant_in_repertoire_Inr)
  from c assms(3) have le: "n \<le> int (length (candidates ?m rep))"
    and o: "others = filter (unusable ?m) (sequences rep) @ slice_from ?sh n"
    by (auto elim: choose_Inr)
  have n0: "0 \<le> n" using assms(2,3) by (rule requested_nonneg)
  have "set (slice_from ?sh n) \<subseteq> set ?sh"
    by (auto simp: slice_from_def dest: in_set_dropD)
  then have "\<forall>s \<in> set (slice_from ?sh n). \<not> unusable ?m s"
    by (auto simp: random_shuffle_set candidates_def)
  then have "filter (\<lambda>s. \<not> unusable ?m s) (slice_from ?sh n) = slice_from ?sh n"
    by (simp add: filter_id_conv)
  then have "length (slice_from ?sh n) \<le> length (candidates ?m rep')"
    using r o by (simp add: candidates_def build_new_repertoire_sequences)
  moreover have "int (length (slice_from ?sh n)) = int (length (candidates ?m rep)) - n"
    using n0 le by (simp add: slice_from_def random_shuffle_length)
  ultimately show ?thesis by simp
qed


lemma process_all_succeeds:
  "(\<And>k ga. k < length reps \<Longrightarrow>
      \<exists>out gb. process_repertoire st (rule_of (i + k) (simulation st) asg) (reps ! k) ga
                  = (Inr out, gb)) \<Longrightarrow>
   \<exists>outs g'. process_all st asg i reps g = (Inr outs, g')"
proof (induction reps arbitrary: i g)
  case Nil
  then show ?case by simp
next
  case (Cons rep reps)
  from Cons.prems [of 0 g] obtain out g1 where
    o: "process_repertoire st (rule_of i (simulation st) asg) rep g = (Inr out, g1)" by auto
  have "\<exists>out gb. process_repertoire st (rule_of (Suc i + k) (simulation st) asg) (reps ! k) ga
                  = (Inr out, gb)" if "k < length reps" for k ga
    using Cons.prems [of "Suc k" ga] that by simp
  from Cons.IH [OF this] obtain outs g2 where
    "process_all st asg (Suc i) reps g1 = (Inr outs, g2)" by blast
  with o show ?case by simp
qed

lemma test_max_motif_length:
  "max_motif_length (test_s1 strategy inst1) = 3"
  "max_motif_length (test_s2 strategy inst1 inst2) = 3"
  by (simp_all add: max_motif_length_def test_s1_def test_s2_def test_motif_def get_max_length_def)

lemma test_candidates: "candidates 3 test_repertoire = sequences test_repertoire"
  by (simp add: candidates_def unusable_def has_implants_def get_sequence_def
      test_repertoire_def test_sequence_def)

lemma test_requested:
  "length (sequences rep) = 4 \<Longrightarrow> requested (round_double (1 / 2)) rep = Inr 2"
  by (simp add: requested_def mul_half_4 py_int_def)

lemma scenario_step:
  assumes "never_fails strategy" "always_instantiates inst1" "always_instantiates inst2"
    and "signal = test_s1 strategy inst1 \<or> signal = test_s2 strategy inst1 inst2"
    and "length (sequences rep) = 4"
    and "2 \<le> length (candidates 3 rep)"
  shows "\<exists>rep' g'. implant_in_repertoire (implanting_strategy signal) rep
                      (round_double (1 / 2)) signal g
             = (Inr rep', g')
           \<and> length (sequences rep') = 4
           \<and> length (candidates 3 rep) - 2 \<le> length (candidates 3 rep')"
proof -
  have m: "max_motif_length signal = 3" using assms(4) test_max_motif_length by auto
  have st: "sequence_implanting_strategy (implanting_strategy signal) = Some strategy"
    using assms(4) by (auto simp: test_s1_def test_s2_def init_def)
  have ai: "\<forall>m \<in> set (motifs signal). always_instantiates (instantiation_strategy m)"
    using assms(2,3,4) by (auto simp: test_s1_def test_s2_def test_motif_def)
  have ne: "motifs signal \<noteq> []" using assms(4) by (auto simp: test_s1_def test_s2_def)
  have rq: "requested (round_double (1 / 2)) rep = Inr 2"
    using assms(5) by (rule test_requested)
  have le: "2 \<le> int (length (candidates (max_motif_length signal) rep))"
    using assms(6) by (simp add: m)
  from implant_in_repertoire_succeeds [OF st assms(1) ai ne rq le] obtain rep' g' where
    r: "implant_in_repertoire (implanting_strategy signal) rep (round_double (1 / 2)) signal g
          = (Inr rep', g')"
    by blast
  have "length (sequences rep') = 4"
    using implant_in_repertoire_length [OF r] assms(5) by simp
  moreover have "length (candidates 3 rep) - 2 \<le> length (candidates 3 rep')"
    using implant_in_repertoire_candidates_left [OF r nonnegative_half rq]
    by (simp add: m)
  ultimately show ?thesis using r by blast
qed

lemma scenario_rule1:
  assumes "never_fails strategy" "always_instantiates inst1" "always_instantiates inst2"
  shows "\<exists>rep' g'. apply_signals (signals (test_rule1 strategy inst1 inst2))
                      (repertoire_implanting_rate (test_rule1 strategy inst1 inst2))
                      test_repertoire g = (Inr rep', g')"
proof -
  have l: "length (sequences test_repertoire) = 4" by (simp add: test_repertoire_def)
  have c: "length (candidates 3 test_repertoire) = 4" by (simp add: test_candidates l)
  from scenario_step [OF assms, of "test_s1 strategy inst1" test_repertoire g] l c
  obtain rep1 g1 where
    a: "implant_in_repertoire (implanting_strategy (test_s1 strategy inst1)) test_repertoire
          (round_double (1 / 2)) (test_s1 strategy inst1) g = (Inr rep1, g1)"
    and l1: "length (sequences rep1) = 4" and c1: "2 \<le> length (candidates 3 rep1)"
    by auto
  from scenario_step [OF assms, of "test_s2 strategy inst1 inst2" rep1 g1] l1 c1
  obtain rep2 g2 where
    "implant_in_repertoire (implanting_strategy (test_s2 strategy inst1 inst2)) rep1
          (round_double (1 / 2)) (test_s2 strategy inst1 inst2) g1 = (Inr rep2, g2)"
    by auto
  with a show ?thesis by (simp add: test_rule1_def)
qed

lemma scenario_rule2:
  assumes "never_fails strategy" "always_instantiates inst1" "always_instantiates inst2"
  shows "\<exists>rep' g'. apply_signals (signals (test_rule2 strategy inst1 inst2))
                      (repertoire_implanting_rate (test_rule2 strategy inst1 inst2))
                      test_repertoire g = (Inr rep', g')"
proof -
  have l: "length (sequences test_repertoire) = 4" by (simp add: test_repertoire_def)
  have c: "length (candidates 3 test_repertoire) = 4" by (simp add: test_candidates l)
  from scenario_step [OF assms, of "test_s2 strategy inst1 inst2" test_repertoire g] l c
  obtain rep1 g1 where
    "implant_in_repertoire (implanting_strategy (test_s2 strategy inst1 inst2)) test_repertoire
          (round_double (1 / 2)) (test_s2 strategy inst1 inst2) g = (Inr rep1, g1)"
    by auto
  then show ?thesis by (simp add: test_rule2_def)
qed

lemma scenario_process:
  assumes "never_fails strategy" "always_instantiates inst1" "always_instantiates inst2"
    and "rule = None \<or> rule = Some (test_rule1 strategy inst1 inst2)
          \<or> rule = Some (test_rule2 strategy inst1 inst2)"
  shows "\<exists>out g'. process_repertoire st rule test_repertoire g = (Inr out, g')"
  using assms(4) scenario_rule1 [OF assms(1-3), of g] scenario_rule2 [OF assms(1-3), of g]
  by (auto simp: process_repertoire_def)

lemma scenario_runs:
  assumes "never_fails strategy" "always_instantiates inst1" "always_instantiates inst2"
  shows "\<exists>out g'. run (test_state strategy inst1 inst2) g = (Inr out, g')"
proof -
  let ?st = "test_state strategy inst1 inst2"
  obtain asg pool g1 where a: "assignment ?st g = (asg, pool, g1)"
    by (cases "assignment ?st g")
  have "\<exists>out gb. process_repertoire ?st (rule_of (0 + k) (simulation ?st) asg)
                    (dataset ?st ! k) ga = (Inr out, gb)"
    if "k < length (dataset ?st)" for k ga
  proof -
    have d: "dataset ?st ! k = test_repertoire" using that by (simp add: test_state_def)
    have "rule_of k (simulation ?st) asg = None
        \<or> rule_of k (simulation ?st) asg = Some (test_rule1 strategy inst1 inst2)
        \<or> rule_of k (simulation ?st) asg = Some (test_rule2 strategy inst1 inst2)"
    proof (cases "rule_of k (simulation ?st) asg")
      case None
      then show ?thesis by simp
    next
      case (Some r)
      from rule_of_Some [OF Some] show ?thesis unfolding Some by (simp add: test_state_def)
    qed
    from scenario_process [OF assms this] show ?thesis unfolding d by simp
  qed
  from process_all_succeeds [of "dataset ?st" ?st 0 asg g1, OF this] a
  show ?thesis by (simp add: run_def)
qed




lemma stand_ins:
  "never_fails implant_at_start"
  "always_instantiates (seed_instantiation sd)"
  "annotates_signal_only implant_at_start"
  by (auto simp: never_fails_def always_instantiates_def annotates_signal_only_def
      implant_at_start_def seed_instantiation_def sequence_implants_def Let_def)

section \<open>The claims about exclusivity and the orchestrator\<close>

text \<open>
  C1 (exclusivity). A call of \<^verbatim>\<open>implant_in_repertoire\<close> never selects a sequence that
  already carries an implant, or that is not longer than the longest motif, as a target:
  every such sequence is carried through among the others. Hence, when the sequence
  implanting strategy annotates its result with the implanted signal only, a repertoire
  in which no sequence carries implants of two signals stays so. The lemmas
  \<open>apply_signals_exclusive\<close> and \<open>run_exclusive\<close> lift this to all signals of a rule
  and to a whole run.
\<close>

theorem exclusivity:
  assumes "implant_in_repertoire hsi rep p signal g = (Inr rep', g')"
    and "sequence_implanting_strategy hsi = Some strategy"
    and "annotates_signal_only strategy"
    and "\<forall>s \<in> set (sequences rep). exclusive s"
  shows "(\<exists>targets others processed g1.
            choose_sequences_for_implanting rep p (max_motif_length signal) g
              = (Inr (targets, others), g1)
          \<and> implant_in_sequences hsi targets signal g1 = (Inr processed, g')
          \<and> sequences rep' = others @ processed
          \<and> (\<forall>t \<in> set targets.
                \<not> has_implants t \<and> max_motif_length signal < length (get_sequence t))
          \<and> (\<forall>s \<in> set (sequences rep).
                has_implants s \<or> length (get_sequence s) \<le> max_motif_length signal
                  \<longrightarrow> s \<in> set others))
       \<and> (\<forall>s \<in> set (sequences rep'). exclusive s)"
proof -
  from assms(1) obtain targets others processed g1 where
    c: "choose_sequences_for_implanting rep p (max_motif_length signal) g
          = (Inr (targets, others), g1)"
    and i: "implant_in_sequences hsi targets signal g1 = (Inr processed, g')"
    and r: "rep' = build_new_repertoire (others @ processed)
              (Some (build_new_metadata (metadata rep))) signal"
    by (rule implant_in_repertoire_Inr)
  have s: "sequences rep' = others @ processed"
    using r by (simp add: build_new_repertoire_sequences)
  have t: "\<forall>t \<in> set targets.
             \<not> has_implants t \<and> max_motif_length signal < length (get_sequence t)"
    using choose_targets_eligible [OF c] by blast
  have u: "\<forall>s \<in> set (sequences rep).
             has_implants s \<or> length (get_sequence s) \<le> max_motif_length signal
               \<longrightarrow> s \<in> set others"
    using choose_unusable_kept [OF c] by (simp add: unusable_def)
  have e: "\<forall>s \<in> set (sequences rep'). exclusive s"
    using assms by (rule implant_in_repertoire_exclusive)
  from c i s t u e show ?thesis by blast
qed

theorem exclusivity_witness:
  "sequence_implanting_strategy (implanting_strategy s2) = Some implant_at_start \<and>
   annotates_signal_only implant_at_start \<and>
   list_all exclusive (sequences mixed_repertoire) \<and>
   list_all has_implants [annotated_sequence ''1'', annotated_sequence ''3''] \<and>
   (\<exists>rep' g' targets others processed.
      implant_in_repertoire (implanting_strategy s2) mixed_repertoire (round_double (1 / 2)) s2 g0
        = (Inr rep', g')
    \<and> sequences rep' = others @ processed
    \<and> list_all (\<lambda>t. \<not> has_implants t) targets
    \<and> annotated_sequence ''1'' \<in> set others
    \<and> annotated_sequence ''3'' \<in> set others
    \<and> list_all exclusive (sequences rep'))"
proof -
  let ?r = "implant_in_repertoire (implanting_strategy s2) mixed_repertoire
              (round_double (1 / 2)) s2 g0"
  have "\<not> isl (fst ?r)" by code_simp
  then obtain r g' where r: "?r = (Inr r, g')" by (cases ?r; cases "fst ?r") auto
  have st: "sequence_implanting_strategy (implanting_strategy s2) = Some implant_at_start"
    by (simp add: s2_def test_s2_def init_def)
  have h: "has_implants (annotated_sequence i)" for i
    by (simp add: has_implants_def annotated_sequence_def)
  have e: "exclusive (annotated_sequence i)" "exclusive (test_sequence i)" for i
    by (simp_all add: exclusive_def sequence_implants_def annotated_sequence_def
        test_sequence_def)
  have inv: "\<forall>s \<in> set (sequences mixed_repertoire). exclusive s"
    using e by (simp add: mixed_repertoire_def)
  have m: "annotated_sequence ''1'' \<in> set (sequences mixed_repertoire)"
    "annotated_sequence ''3'' \<in> set (sequences mixed_repertoire)"
    by (simp_all add: mixed_repertoire_def)
  from exclusivity [OF r st stand_ins(3) inv] obtain targets others processed where
    "sequences r = others @ processed"
    "\<forall>t \<in> set targets. \<not> has_implants t"
    "annotated_sequence ''1'' \<in> set others" "annotated_sequence ''3'' \<in> set others"
    "\<forall>s \<in> set (sequences r). exclusive s"
    using h m by blast
  with r st stand_ins(3) inv h show ?thesis
    unfolding list_all_iff by (simp del: set_append) blast
qed




text \<open>
  C5 (metadata completeness). After a run every output repertoire has, for every signal
  of the simulation state, the flag \<^verbatim>\<open>signal_<id>\<close> set to True or False: True exactly
  when the signal belongs to the rule of the repertoire, and False for every signal on
  an unassigned repertoire.
\<close>

theorem metadata_completeness:
  assumes "run st g = (Inr out, g')"
    and "assignment st g = (asg, pool, g1)"
  shows "length out = length (dataset st)
       \<and> (\<forall>x \<in> set out. \<forall>s \<in> set (state_signals st).
            flags x (flag_key (signal_identifier s)) \<in> {Some True, Some False})
       \<and> (\<forall>i < length out. \<forall>s \<in> set (state_signals st).
            flags (out ! i) (flag_key (signal_identifier s))
              = Some (touched (rule_of i (simulation st) asg) (signal_identifier s)))
       \<and> (\<forall>i \<in> set pool. \<forall>s \<in> set (state_signals st).
            flags (out ! i) (flag_key (signal_identifier s)) = Some False)"
proof -
  let ?R = "length (dataset st)"
  have l: "length out = ?R" using run_Inr(1) [OF assms] .
  have f: "flags (out ! i) (flag_key (signal_identifier s))
             = Some (touched (rule_of i (simulation st) asg) (signal_identifier s))"
    if "i < length out" "s \<in> set (state_signals st)" for i s
  proof -
    from that(1) l have "i < ?R" by simp
    from run_Inr(2) [OF assms this] obtain ga gb where
      "process_repertoire st (rule_of i (simulation st) asg) (dataset st ! i) ga
         = (Inr (out ! i), gb)" by blast
    from process_repertoire_Inr(1) [OF this] that(2) show ?thesis
      by (simp add: signal_flags_known)
  qed
  have a: "flags x (flag_key (signal_identifier s)) \<in> {Some True, Some False}"
    if "x \<in> set out" "s \<in> set (state_signals st)" for x s
  proof -
    from that(1) obtain i where "i < length out" "x = out ! i" by (auto simp: in_set_conv_nth)
    with f [of i s] that(2) show ?thesis by auto
  qed
  have u: "flags (out ! i) (flag_key (signal_identifier s)) = Some False"
    if "i \<in> set pool" "s \<in> set (state_signals st)" for i s
  proof -
    from that(1) assignment_partition_sets(1,2) [OF assms(2)]
    have "i \<notin> set (concat asg)" and "i < ?R" by auto
    then have "rule_of i (simulation st) asg = None" by (simp add: rule_of_None)
    with f [of i s] that(2) \<open>i < ?R\<close> l show ?thesis by (simp add: touched_def)
  qed
  from l a f u show ?thesis by blast
qed

theorem metadata_completeness_witness:
  "\<exists>out g'. run st0 g0 = (Inr out, g')
    \<and> length out = 10
    \<and> list_all (\<lambda>x. flags x ''signal_s1'' \<in> {Some True, Some False}
                 \<and> flags x ''signal_s2'' \<in> {Some True, Some False}) out"
proof -
  obtain asg pool g1 where a: "assignment st0 g0 = (asg, pool, g1)"
    by (cases "assignment st0 g0")
  obtain out g' where r: "run st0 g0 = (Inr out, g')"
    using scenario_runs [OF stand_ins(1) stand_ins(2) stand_ins(2)] unfolding st0_def by blast
  have k: "state_signals st0 = [s1, s2]" "flag_key (signal_identifier s1) = ''signal_s1''"
    "flag_key (signal_identifier s2) = ''signal_s2''"
    by (simp_all add: st0_def test_state_def s1_def s2_def test_s1_def test_s2_def flag_key_def)
  have R: "length (dataset st0) = 10" by (simp add: st0_def test_state_def)
  note t = metadata_completeness [OF r a, unfolded R k(1)]
  from t have "length out = 10" by blast
  moreover from t have "\<forall>x \<in> set out. \<forall>s \<in> set [s1, s2].
            flags x (flag_key (signal_identifier s)) \<in> {Some True, Some False}"
    by blast
  then have "list_all (\<lambda>x. flags x ''signal_s1'' \<in> {Some True, Some False}
                 \<and> flags x ''signal_s2'' \<in> {Some True, Some False}) out"
    unfolding list_all_iff using k(2,3) by simp
  ultimately have "length out = 10"
    "list_all (\<lambda>x. flags x ''signal_s1'' \<in> {Some True, Some False}
                 \<and> flags x ''signal_s2'' \<in> {Some True, Some False}) out"
    by simp_all
  with r show ?thesis by blast
qed



section \<open>Properties of the store\<close>

lemma unchanged_refl: "unchanged h h"
  by (simp add: unchanged_def)

lemma unchanged_trans: "unchanged h h1 \<Longrightarrow> unchanged h1 h2 \<Longrightarrow> unchanged h h2"
  by (auto simp: unchanged_def)

lemma unchanged_alloc:
  "alloc_seq s h = (a, h') \<Longrightarrow> unchanged h h' \<and> a = next_free h \<and> next_free h' = Suc a"
  "alloc_list l h = (a, h') \<Longrightarrow> unchanged h h' \<and> a = next_free h \<and> next_free h' = Suc a"
  "alloc_sample sa h = (a, h') \<Longrightarrow> unchanged h h' \<and> a = next_free h \<and> next_free h' = Suc a"
  "alloc_implants i h = (a, h') \<Longrightarrow> unchanged h h' \<and> a = next_free h \<and> next_free h' = Suc a"
  "alloc_meta m h = (a, h') \<Longrightarrow> unchanged h h' \<and> a = next_free h \<and> next_free h' = Suc a"
  "alloc_rep r h = (a, h') \<Longrightarrow> unchanged h h' \<and> a = next_free h \<and> next_free h' = Suc a"
  by (auto simp: unchanged_def alloc_seq_def alloc_list_def alloc_sample_def alloc_implants_def
      alloc_meta_def alloc_rep_def)

lemma unchanged_write:
  "unchanged h0 h \<Longrightarrow> next_free h0 \<le> l \<Longrightarrow> unchanged h0 (list_append l a h)"
  "unchanged h0 h \<Longrightarrow> next_free h0 \<le> l \<Longrightarrow> unchanged h0 (list_assign l v h)"
  "unchanged h0 h \<Longrightarrow> next_free h0 \<le> m \<Longrightarrow> unchanged h0 (set_sample m s h)"
  "unchanged h0 h \<Longrightarrow> next_free h0 \<le> implants_ref (meta_heap h m)
     \<Longrightarrow> unchanged h0 (h_add_implant m i h)"
  by (auto simp: unchanged_def list_append_def list_assign_def set_sample_def h_add_implant_def)

lemma next_free_write [simp]:
  "next_free (list_append l a h) = next_free h"
  "next_free (list_assign l v h) = next_free h"
  "next_free (set_sample m s h) = next_free h"
  "next_free (h_add_implant m i h) = next_free h"
  by (simp_all add: list_append_def list_assign_def set_sample_def h_add_implant_def)

lemma new_metadata_fresh:
  assumes "new_metadata h = (m, h')"
  shows "unchanged h h'" and "fresh_metadata h h' m"
  using assms
  by (auto simp: new_metadata_def fresh_metadata_def unchanged_def alloc_implants_def
      alloc_meta_def split: prod.splits)

lemma deepcopy_metadata_fresh:
  assumes "deepcopy_metadata a h = (m, h')"
  shows "unchanged h h'" and "fresh_metadata h h' m"
  using assms
  by (auto simp: deepcopy_metadata_def fresh_metadata_def unchanged_def alloc_implants_def
      alloc_meta_def alloc_sample_def split: prod.splits option.splits)

lemma h_build_new_metadata_fresh:
  assumes "h_build_new_metadata md h = (m, h')"
  shows "unchanged h h'" and "fresh_metadata h h' m"
proof -
  obtain m1 h1 where c: "(case md of Some a \<Rightarrow> deepcopy_metadata a h | None \<Rightarrow> new_metadata h)
      = (m1, h1)" by (cases "case md of Some a \<Rightarrow> deepcopy_metadata a h | None \<Rightarrow> new_metadata h")
  then have u1: "unchanged h h1" and f1: "fresh_metadata h h1 m1"
    using new_metadata_fresh deepcopy_metadata_fresh by (auto split: option.splits)
  from assms c have "unchanged h h' \<and> fresh_metadata h h' m"
    using u1 f1
    by (auto simp: h_build_new_metadata_def fresh_metadata_def unchanged_def alloc_sample_def
        set_sample_def split: if_splits prod.splits option.splits)
  then show "unchanged h h'" and "fresh_metadata h h' m" by simp_all
qed

lemma h_build_new_repertoire_fresh:
  assumes "h_build_new_repertoire seqs md signal h = (r, h')"
  shows "unchanged h h'"
    and "next_free h \<le> r" and "r < next_free h'"
    and "sequences_ref (rep_heap h' r) = seqs"
    and "\<exists>m. metadata_ref (rep_heap h' r) = Some m \<and> fresh_metadata h h' m"
proof -
  obtain m1 h1 where c: "(case md of Some a \<Rightarrow> deepcopy_metadata a h | None \<Rightarrow> new_metadata h)
      = (m1, h1)" by (cases "case md of Some a \<Rightarrow> deepcopy_metadata a h | None \<Rightarrow> new_metadata h")
  then have u1: "unchanged h h1" and f1: "fresh_metadata h h1 m1"
    using new_metadata_fresh deepcopy_metadata_fresh by (auto split: option.splits)
  from assms c u1 f1
  have "unchanged h h' \<and> next_free h \<le> r \<and> r < next_free h'
      \<and> sequences_ref (rep_heap h' r) = seqs
      \<and> (\<exists>m. metadata_ref (rep_heap h' r) = Some m \<and> fresh_metadata h h' m)"
    by (auto simp: h_build_new_repertoire_def fresh_metadata_def unchanged_def alloc_rep_def
        h_add_implant_def split: prod.splits option.splits)
  then show "unchanged h h'" "next_free h \<le> r" "r < next_free h'"
    "sequences_ref (rep_heap h' r) = seqs"
    "\<exists>m. metadata_ref (rep_heap h' r) = Some m \<and> fresh_metadata h h' m"
    by simp_all
qed

lemma h_partition_loop_unchanged:
  "unchanged h0 h \<Longrightarrow> next_free h0 \<le> u \<Longrightarrow> next_free h0 \<le> p \<Longrightarrow>
     unchanged h0 (h_partition_loop m as u p h)"
  by (induction as arbitrary: h) (simp_all add: unchanged_write)

lemma h_partition_loop_next_free [simp]:
  "next_free (h_partition_loop m as u p h) = next_free h"
  by (induction as arbitrary: h) simp_all

lemma h_implant_loop_unchanged:
  "h_implant_loop hsi signal as r h g = (res, h', g') \<Longrightarrow> unchanged h0 h \<Longrightarrow>
   next_free h0 \<le> r \<Longrightarrow> unchanged h0 h'"
proof (induction as arbitrary: h g)
  case Nil
  then show ?case by simp
next
  case (Cons a as)
  show ?case
  proof (cases "implant_in_sequence hsi (seq_heap h a) signal g")
    case (Pair x g1)
    show ?thesis
    proof (cases x)
      case (Inl e)
      with Pair Cons.prems show ?thesis by simp
    next
      case (Inr s)
      obtain b h1 where al: "alloc_seq s h = (b, h1)" by (cases "alloc_seq s h")
      from unchanged_alloc(1) [OF al] Cons.prems(2) have "unchanged h0 h1"
        by (blast intro: unchanged_trans)
      then have "unchanged h0 (list_append r b h1)"
        using Cons.prems(3) by (rule unchanged_write)
      moreover from Cons.prems(1) Pair Inr al
      have "h_implant_loop hsi signal as r (list_append r b h1) g1 = (res, h', g')" by simp
      ultimately show ?thesis using Cons.IH Cons.prems(3) by blast
    qed
  qed
qed

lemma h_implant_in_sequences_unchanged:
  assumes "h_implant_in_sequences hsi t signal h g = (res, h', g')"
  shows "unchanged h h'" and "res = Inr r \<Longrightarrow> next_free h \<le> r"
proof -
  show "unchanged h h'"
  proof (cases "sequence_implanting_strategy hsi = None")
    case True
    with assms show ?thesis by (simp add: h_implant_in_sequences_def unchanged_refl)
  next
    case False
    obtain r0 h1 where al: "alloc_list [] h = (r0, h1)" by (cases "alloc_list [] h")
    obtain x h2 g2 where l: "h_implant_loop hsi signal (list_heap h1 t) r0 h1 g = (x, h2, g2)"
      by (cases "h_implant_loop hsi signal (list_heap h1 t) r0 h1 g")
    from unchanged_alloc(2) [OF al] have u: "unchanged h h1" "next_free h \<le> r0" by simp_all
    from h_implant_loop_unchanged [OF l u] have "unchanged h h2" .
    moreover from assms False al l have "h' = h2"
      by (auto simp: h_implant_in_sequences_def split: sum.splits)
    ultimately show ?thesis by simp
  qed
  show "res = Inr r \<Longrightarrow> next_free h \<le> r"
    using assms
    by (auto simp: h_implant_in_sequences_def alloc_list_def split: if_splits prod.splits sum.splits)
qed

lemma h_choose_unchanged:
  assumes "h_choose_sequences_for_implanting rep p m h g = (res, h', g')"
  shows "unchanged h h'"
    and "res = Inr (t, others) \<Longrightarrow> next_free h \<le> t \<and> next_free h \<le> others"
proof -
  obtain u h1 where a1: "alloc_list [] h = (u, h1)" by (cases "alloc_list [] h")
  obtain q h2 where a2: "alloc_list [] h1 = (q, h2)" by (cases "alloc_list [] h1")
  let ?seqs = "list_heap h (sequences_ref (rep_heap h rep))"
  let ?h3 = "h_partition_loop m ?seqs u q h2"
  from unchanged_alloc(2) [OF a1] unchanged_alloc(2) [OF a2]
  have u2: "unchanged h h2" and fu: "next_free h \<le> u" and fq: "next_free h \<le> q"
    and n2: "next_free h2 = Suc (Suc (next_free h))"
    by (auto intro: unchanged_trans simp: unchanged_def)
  have u3: "unchanged h ?h3" using u2 fu fq by (rule h_partition_loop_unchanged)
  show "unchanged h h'"
  proof (cases "mul_float_int p (int (length ?seqs))")
    case (Inl e)
    with assms have "h' = h" by (simp add: h_choose_sequences_for_implanting_def Let_def)
    then show ?thesis by (simp add: unchanged_refl)
  next
    case product: (Inr x)
    show ?thesis
    proof (cases "py_int x")
      case (Inl e)
      with assms product have "h' = h"
        by (simp add: h_choose_sequences_for_implanting_def Let_def)
      then show ?thesis by (simp add: unchanged_refl)
    next
      case count: (Inr n)
      show ?thesis
      proof (cases "n \<le> int (length (list_heap ?h3 q))")
        case False
        with assms product count a1 a2 have "h' = ?h3"
          by (simp add: h_choose_sequences_for_implanting_def Let_def)
        with u3 show ?thesis by simp
      next
        case True
        obtain sh g1 where s: "random_shuffle (list_heap ?h3 q) g = (sh, g1)"
          by (cases "random_shuffle (list_heap ?h3 q) g")
        let ?h4 = "list_assign q sh ?h3"
        have u4: "unchanged h ?h4" using u3 fq by (rule unchanged_write)
        obtain t h5 where a5: "alloc_list (slice_to (list_heap ?h4 q) n) ?h4 = (t, h5)"
          by (cases "alloc_list (slice_to (list_heap ?h4 q) n) ?h4")
        obtain ot h6 where a6:
          "alloc_list (list_heap h5 u @ slice_from (list_heap h5 q) n) h5 = (ot, h6)"
          by (cases "alloc_list (list_heap h5 u @ slice_from (list_heap h5 q) n) h5")
        from unchanged_alloc(2) [OF a5] unchanged_alloc(2) [OF a6] u4
        have "unchanged h h6" by (blast intro: unchanged_trans)
        moreover from assms product count a1 a2 True s a5 a6 have "h' = h6"
          by (simp add: h_choose_sequences_for_implanting_def Let_def)
        ultimately show ?thesis by simp
      qed
    qed
  qed
  show "res = Inr (t, others) \<Longrightarrow> next_free h \<le> t \<and> next_free h \<le> others"
    using assms
    by (auto simp: h_choose_sequences_for_implanting_def Let_def alloc_list_def
        list_assign_def split: if_splits prod.splits sum.splits)
qed

lemma fresh_metadata_mono:
  "fresh_metadata h1 h' m \<Longrightarrow> next_free h \<le> next_free h1 \<Longrightarrow> fresh_metadata h h' m"
  by (auto simp: fresh_metadata_def split: option.splits)

lemma unchanged_repertoire_at:
  "unchanged h h' \<Longrightarrow> allocated h r \<Longrightarrow> repertoire_at h' r = repertoire_at h r"
  by (auto simp: unchanged_def allocated_def allocated_metadata_def repertoire_at_def
      metadata_at_def list_all_iff split: option.splits)

section \<open>The claim about mutation\<close>

text \<open>
  C7 (non-mutation of the input). Whatever \<^verbatim>\<open>implant_in_repertoire\<close> returns or
  raises, every object that existed before the call is unchanged after it: the
  repertoire object, its list of sequences, the sequence objects and the metadata with
  its sample and implants, so that the input repertoire has the same value. A returned
  repertoire is a new object, with a new list of sequences and with metadata, sample and
  list of implants that were all allocated during the call.
\<close>

theorem non_mutation:
  assumes "h_implant_in_repertoire hsi r p signal h g = (res, h', g')"
  shows "unchanged h h'
       \<and> (allocated h r \<longrightarrow> repertoire_at h' r = repertoire_at h r)
       \<and> (\<forall>r'. res = Inr r' \<longrightarrow> fresh_repertoire h h' r')"
proof -
  have "unchanged h h' \<and> (\<forall>r'. res = Inr r' \<longrightarrow> fresh_repertoire h h' r')"
  proof (cases "calculate_max_motif_length signal")
    case (Inl e)
    with assms show ?thesis by (auto simp: h_implant_in_repertoire_def unchanged_refl)
  next
    case (Inr m)
    obtain x h1 g1 where c: "h_choose_sequences_for_implanting r p m h g = (x, h1, g1)"
      by (cases "h_choose_sequences_for_implanting r p m h g")
    note u1 = h_choose_unchanged(1) [OF c]
    show ?thesis
    proof (cases x)
      case (Inl e)
      with assms Inr c u1 show ?thesis by (auto simp: h_implant_in_repertoire_def)
    next
      case xr: (Inr to)
      obtain t others where to: "to = (t, others)" by (cases to)
      obtain y h2 g2 where i: "h_implant_in_sequences hsi t signal h1 g1 = (y, h2, g2)"
        by (cases "h_implant_in_sequences hsi t signal h1 g1")
      have u2: "unchanged h h2"
        using u1 h_implant_in_sequences_unchanged(1) [OF i] by (rule unchanged_trans)
      show ?thesis
      proof (cases y)
        case (Inl e)
        with assms Inr c xr to i u2 show ?thesis by (auto simp: h_implant_in_repertoire_def)
      next
        case yr: (Inr processed)
        obtain seqs h3 where a3:
          "alloc_list (list_heap h2 others @ list_heap h2 processed) h2 = (seqs, h3)"
          by (cases "alloc_list (list_heap h2 others @ list_heap h2 processed) h2")
        obtain md h4 where b4:
          "h_build_new_metadata (metadata_ref (rep_heap h3 r)) h3 = (md, h4)"
          by (cases "h_build_new_metadata (metadata_ref (rep_heap h3 r)) h3")
        obtain nr h5 where b5: "h_build_new_repertoire seqs (Some md) signal h4 = (nr, h5)"
          by (cases "h_build_new_repertoire seqs (Some md) signal h4")
        from assms Inr c xr to i yr a3 b4 b5 have e: "res = Inr nr" "h' = h5"
          by (simp_all add: h_implant_in_repertoire_def)
        have u3: "unchanged h h3" and s3: "next_free h \<le> seqs"
          using u2 unchanged_alloc(2) [OF a3]
          by (auto intro: unchanged_trans simp: unchanged_def)
        have u4: "unchanged h h4"
          using u3 h_build_new_metadata_fresh(1) [OF b4] by (rule unchanged_trans)
        have u5: "unchanged h h5"
          using u4 h_build_new_repertoire_fresh(1) [OF b5] by (rule unchanged_trans)
        have n4: "next_free h \<le> next_free h4" using u4 by (simp add: unchanged_def)
        from h_build_new_repertoire_fresh(2-5) [OF b5] n4 s3
        have "fresh_repertoire h h5 nr"
          by (auto simp: fresh_repertoire_def intro: fresh_metadata_mono)
        with u5 e show ?thesis by simp
      qed
    qed
  qed
  then show ?thesis using unchanged_repertoire_at by blast
qed

theorem non_mutation_witness:
  "allocated test_heap test_ref \<and>
   repertoire_at test_heap test_ref = mixed_repertoire \<and>
   (\<exists>res h' g'. h_implant_in_repertoire (implanting_strategy s2) test_ref (round_double (1 / 2))
                    s2 test_heap g0
                  = (res, h', g')
      \<and> unchanged test_heap h'
      \<and> repertoire_at h' test_ref = mixed_repertoire)"
proof -
  let ?c = "h_implant_in_repertoire (implanting_strategy s2) test_ref (round_double (1 / 2))
              s2 test_heap g0"
  have a: "allocated test_heap test_ref" by code_simp
  have v: "repertoire_at test_heap test_ref = mixed_repertoire" by code_simp
  obtain res h' g' where c: "?c = (res, h', g')" by (cases ?c)
  from non_mutation [OF c] a v have "unchanged test_heap h'" "repertoire_at h' test_ref = mixed_repertoire"
    by simp_all
  with a v c show ?thesis by - (intro exI conjI; assumption)
qed

end
